theory Spec2Isabelle
  imports Main
begin

section \<open>Status codes and plain data of the libav interface\<close>

text \<open>
  The pipeline talks to libavformat/libavcodec through \<^verbatim>\<open>int\<close> status codes. Their
  numeric values come from \<^verbatim>\<open>libavutil/error.h\<close> (\<^verbatim>\<open>FFERRTAG\<close>) and
  from \<^verbatim>\<open>errno.h\<close> of the build platform (Linux: \<^verbatim>\<open>EAGAIN = 11\<close>,
  \<^verbatim>\<open>ENOMEM = 12\<close>, \<^verbatim>\<open>EINVAL = 22\<close>). The development only relies on their
  being negative and pairwise distinct.
\<close>

definition AVERROR_EOF :: int where
  "AVERROR_EOF = - 541478725"

definition AVERROR_EAGAIN :: int where
  "AVERROR_EAGAIN = - 11"

definition AVERROR_ENOMEM :: int where
  "AVERROR_ENOMEM = - 12"

definition AVERROR_EINVAL :: int where
  "AVERROR_EINVAL = - 22"

definition AVERROR_UNKNOWN :: int where
  "AVERROR_UNKNOWN = - 1313558101"

definition AVERROR_EXTERNAL :: int where
  "AVERROR_EXTERNAL = - 542398533"

definition AVERROR_ENCODER_NOT_FOUND :: int where
  "AVERROR_ENCODER_NOT_FOUND = - 1129203192"

definition AV_PIX_FMT_NONE :: int where
  "AV_PIX_FMT_NONE = - 1"

text \<open>The largest value of an \<^verbatim>\<open>int64_t\<close>.\<close>

definition INT64_MAX :: int where
  "INT64_MAX = 9223372036854775807"

datatype AVMediaType =
    AVMEDIA_TYPE_UNKNOWN
  | AVMEDIA_TYPE_VIDEO
  | AVMEDIA_TYPE_AUDIO
  | AVMEDIA_TYPE_DATA
  | AVMEDIA_TYPE_SUBTITLE
  | AVMEDIA_TYPE_ATTACHMENT

record AVRational =
  num :: int
  den :: int

record AVCodecParameters =
  codec_type :: AVMediaType
  codec_id :: int
  codec_tag :: int

text \<open>A stream of a format context; its \<^verbatim>\<open>index\<close> is its position in the context's list.\<close>

record AVStream =
  codecpar :: AVCodecParameters
  time_base :: AVRational

text \<open>The fields of a codec context that \<^verbatim>\<open>Encoder::init\<close> reads or sets.\<close>

record AVCodecContext =
  ctx_pix_fmt :: int
  ctx_time_base :: AVRational
  ctx_framerate :: AVRational

record AVFrame =
  pts :: int
  format :: int

record AVPacket =
  stream_index :: int
  pkt_pts :: int
  pkt_dts :: int
  pkt_duration :: int

record EncoderConfig =
  copy_streams :: bool
  pix_fmt :: int

section \<open>The encoder object (encoder.cpp)\<close>

text \<open>
  The members of \<^verbatim>\<open>class Encoder\<close>: the streams of \<^verbatim>\<open>ofmt_ctx_\<close>, the
  fields of \<^verbatim>\<open>enc_ctx_\<close>, \<^verbatim>\<open>out_vstream_idx_\<close> and \<^verbatim>\<open>stream_map_\<close>
  (\<open>None\<close> is the null pointer). \<open>log_warn\<close> collects the index argument of every
  \<^verbatim>\<open>spdlog::warn("Skipping unsupported stream type at index: {}")\<close>.
\<close>

record Encoder =
  ofmt_streams :: "AVStream list"
  enc_ctx :: AVCodecContext
  out_vstream_idx :: int
  stream_map :: "int list option"
  log_warn :: "int list"

text \<open>
  What the library calls made by \<^verbatim>\<open>Encoder::init\<close> answer. Each field is the outcome
  of one call; \<open>new_stream_ok k\<close> tells whether \<^verbatim>\<open>avformat_new_stream\<close> succeeds
  when the output context already holds \<open>k\<close> streams, \<open>parameters_copy_ret i\<close> is the
  status of \<^verbatim>\<open>avcodec_parameters_copy\<close> for input stream \<open>i\<close>, \<open>fresh_stream\<close> is
  the stream a successful \<^verbatim>\<open>avformat_new_stream\<close> hands out, and \<open>uninit_int\<close> is
  the content of the cells of a fresh \<^verbatim>\<open>av_malloc_array\<close> block.
\<close>

record init_env =
  ofmt_alloc_ok :: bool
  encoder_found :: bool
  new_stream_ok :: "nat \<Rightarrow> bool"
  fresh_stream :: AVStream
  enc_ctx_alloc_ok :: bool
  default_pix_fmt :: int
  guessed_frame_rate :: AVRational
  avcodec_open2_ret :: int
  parameters_from_context_ret :: int
  video_codecpar :: AVCodecParameters
  stream_map_alloc_ok :: bool
  uninit_int :: int
  parameters_copy_ret :: "nat \<Rightarrow> int"
  oformat_nofile :: bool
  avio_open_ret :: int

text \<open>
  \<^verbatim>\<open>Encoder::Encoder()\<close>: null contexts (no output stream, an encoder context with
  no pixel format), \<^verbatim>\<open>out_vstream_idx_(-1)\<close>, null map.
\<close>

definition Encoder_new :: Encoder where
  "Encoder_new =
     \<lparr>ofmt_streams = [],
      enc_ctx = \<lparr>ctx_pix_fmt = AV_PIX_FMT_NONE, ctx_time_base = \<lparr>num = 0, den = 1\<rparr>,
                 ctx_framerate = \<lparr>num = 0, den = 1\<rparr>\<rparr>,
      out_vstream_idx = - 1, stream_map = None, log_warn = []\<rparr>"

definition av_inv_q :: "AVRational \<Rightarrow> AVRational" where
  "av_inv_q q = \<lparr>num = den q, den = num q\<rparr>"

text \<open>\<^verbatim>\<open>stream_map_[i] = v\<close>\<close>

definition set_stream_map :: "nat \<Rightarrow> int \<Rightarrow> Encoder \<Rightarrow> Encoder" where
  "set_stream_map i v e = e\<lparr>stream_map := map_option (\<lambda>m. m[i := v]) (stream_map e)\<rparr>"

text \<open>
  The output stream built for a copied input stream (encoder.cpp lines 180--189):
  codec parameters copied, \<^verbatim>\<open>codec_tag = 0\<close>, time base copied.
\<close>

definition copied_stream :: "AVStream \<Rightarrow> AVStream" where
  "copied_stream in_stream =
     \<lparr>codecpar = (codecpar in_stream)\<lparr>codec_tag := 0\<rparr>, time_base = time_base in_stream\<rparr>"

text \<open>
  The loop \<^verbatim>\<open>for (int i = 0; i < nb_streams; i++)\<close> of \<^verbatim>\<open>Encoder::init\<close>
  (lines 155--194), as a recursion over the input streams not yet visited; \<open>i\<close> is the
  index of the head of that list. The result \<open>Some r\<close> is \<^verbatim>\<open>return r\<close> from inside the
  loop, \<open>None\<close> is the loop running to its end.
\<close>

fun map_streams ::
  "init_env \<Rightarrow> int \<Rightarrow> nat \<Rightarrow> AVStream list \<Rightarrow> Encoder \<Rightarrow> int option \<times> Encoder" where
  "map_streams env in_vstream_idx i [] e = (None, e)"
| "map_streams env in_vstream_idx i (in_stream # rest) e =
     (if int i = in_vstream_idx then
        map_streams env in_vstream_idx (Suc i) rest (set_stream_map i (out_vstream_idx e) e)
      else if codec_type (codecpar in_stream) \<noteq> AVMEDIA_TYPE_AUDIO \<and>
              codec_type (codecpar in_stream) \<noteq> AVMEDIA_TYPE_SUBTITLE then
        map_streams env in_vstream_idx (Suc i) rest
          ((set_stream_map i (- 1) e)\<lparr>log_warn := log_warn e @ [int i]\<rparr>)
      else if \<not> new_stream_ok env (length (ofmt_streams e)) then (Some AVERROR_UNKNOWN, e)
      else if parameters_copy_ret env i < 0 then
        (Some (parameters_copy_ret env i),
         e\<lparr>ofmt_streams := ofmt_streams e @ [fresh_stream env]\<rparr>)
      else
        map_streams env in_vstream_idx (Suc i) rest
          (set_stream_map i (int (length (ofmt_streams e)))
             (e\<lparr>ofmt_streams := ofmt_streams e @ [copied_stream in_stream]\<rparr>)))"

text \<open>
  The first part of \<^verbatim>\<open>Encoder::init\<close> (lines 40--142): the output context, the
  output video stream and the encoder context. The hardware context, the picture size,
  bit rate, colour properties, CRF/preset options and the global-header flag are written
  into the encoder context and read by nothing in the two source files; they are left out
  of \<open>AVCodecContext\<close>. Every early \<^verbatim>\<open>return\<close> of the source is a branch here;
  \<open>None\<close> is reaching line 144.
\<close>

definition init_video_stream ::
  "init_env \<Rightarrow> AVCodecContext \<Rightarrow> EncoderConfig \<Rightarrow> Encoder \<Rightarrow> int option \<times> Encoder" where
  "init_video_stream env dec_ctx encoder_config e0 =
     (if \<not> ofmt_alloc_ok env then (Some AVERROR_UNKNOWN, e0)
      else let e = e0\<lparr>ofmt_streams := []\<rparr> in
      if \<not> encoder_found env then (Some AVERROR_ENCODER_NOT_FOUND, e)
      else if \<not> new_stream_ok env 0 then (Some AVERROR_UNKNOWN, e)
      else let e = e\<lparr>ofmt_streams := [fresh_stream env], out_vstream_idx := 0\<rparr> in
      if \<not> enc_ctx_alloc_ok env then (Some AVERROR_ENOMEM, e)
      else let pf = (if pix_fmt encoder_config \<noteq> AV_PIX_FMT_NONE then pix_fmt encoder_config
                     else default_pix_fmt env);
               e = e\<lparr>enc_ctx := (enc_ctx e)\<lparr>ctx_pix_fmt := pf\<rparr>\<rparr> in
      if pf = AV_PIX_FMT_NONE then (Some AVERROR_EINVAL, e)
      else let tb = (if num (ctx_time_base dec_ctx) > 0 \<and> den (ctx_time_base dec_ctx) > 0
                     then ctx_time_base dec_ctx else av_inv_q (guessed_frame_rate env));
               fr = (if num (ctx_framerate dec_ctx) > 0 \<and> den (ctx_framerate dec_ctx) > 0
                     then ctx_framerate dec_ctx else guessed_frame_rate env);
               e = e\<lparr>enc_ctx := (enc_ctx e)\<lparr>ctx_time_base := tb, ctx_framerate := fr\<rparr>\<rparr> in
      if avcodec_open2_ret env < 0 then (Some (avcodec_open2_ret env), e)
      else if parameters_from_context_ret env < 0 then
        (Some (parameters_from_context_ret env), e)
      else
        (None, e\<lparr>ofmt_streams :=
                   [\<lparr>codecpar = video_codecpar env, time_base = ctx_time_base (enc_ctx e)\<rparr>]\<rparr>))"

text \<open>
  \<^verbatim>\<open>Encoder::init\<close>: the part above, the stream map (lines 144--195), the output
  file (lines 197--206).
\<close>

definition init ::
  "init_env \<Rightarrow> AVStream list \<Rightarrow> AVCodecContext \<Rightarrow> EncoderConfig \<Rightarrow> int \<Rightarrow> Encoder
     \<Rightarrow> int \<times> Encoder" where
  "init env ifmt_streams dec_ctx encoder_config in_vstream_idx e0 =
     (case init_video_stream env dec_ctx encoder_config e0 of
        (Some r, e) \<Rightarrow> (r, e)
      | (None, e) \<Rightarrow>
          if copy_streams encoder_config \<and> \<not> stream_map_alloc_ok env then (AVERROR_ENOMEM, e)
          else
            (case (if copy_streams encoder_config
                   then map_streams env in_vstream_idx 0 ifmt_streams
                          (e\<lparr>stream_map :=
                               Some (replicate (length ifmt_streams) (uninit_int env))\<rparr>)
                   else (None, e)) of
               (Some r, e') \<Rightarrow> (r, e')
             | (None, e') \<Rightarrow>
                 if \<not> oformat_nofile env \<and> avio_open_ret env < 0 then (avio_open_ret env, e')
                 else (0, e')))"

section \<open>The world seen by the control loop (libvideo2x.cpp)\<close>

text \<open>
  Every call into a collaborator (demuxer, decoder, filter, pixel-format conversion,
  encoder, muxer) is recorded in \<open>trace\<close>, in call order, with the status it returned.
\<close>

datatype event =
    EvReadFrame int
  | EvSendPacket int
  | EvReceiveFrame int
  | EvSleep nat
  | EvFilterProcess int "AVFrame option"
  | EvFilterFlush int "AVFrame list"
  | EvSendFrame "AVFrame option" int
  | EvReceivePacket int
  | EvMuxWrite AVPacket int
  | EvWriteHeader int
  | EvWriteTrailer

text \<open>
  A C function either returns an \<^verbatim>\<open>int\<close> or runs into undefined behaviour (a null
  or out-of-range array access): \<open>Fault\<close>. Inside a loop, \<open>Proceed\<close> is the loop ending
  normally and \<open>Stop r\<close> is a \<^verbatim>\<open>return\<close> from inside it.
\<close>

datatype rc = Ret int | Fault

datatype flow = Proceed | Stop rc

text \<open>
  The state threaded through \<^verbatim>\<open>process_frames\<close>.
  \<^item> \<open>total_frames\<close>, \<open>processed_frames\<close>, \<open>start_time\<close> are the fields of
    \<^verbatim>\<open>VideoProcessingContext\<close>. The flags \<^verbatim>\<open>abort\<close> and \<^verbatim>\<open>pause\<close> of that
    context are written by another thread: \<open>abort_obs k\<close> and \<open>pause_obs k\<close> are the
    values that read number \<open>k\<close> of each flag sees, \<open>abort_reads\<close> and \<open>pause_reads\<close>
    count the reads made so far. The counters are \<^verbatim>\<open>int64_t\<close> in the source; the
    one piece of arithmetic on them, the increment of \<^verbatim>\<open>processed_frames\<close>, is
    \<open>count_frame\<close> below, with its overflow written out.
  \<^item> \<open>ifmt_streams\<close> are the streams of the input context, \<open>encoder\<close> is the encoder
    object, \<open>rescale_ts\<close> is libavcodec's \<^verbatim>\<open>av_packet_rescale_ts\<close>.
  \<^item> The scripts hold what the collaborators answer, one entry per call. A collaborator
    whose script is used up answers with its idle status: end of file for the demuxer,
    "try again" for decoder and encoder output, success for the calls that take input,
    no frames for the filter flush; a filter with no scripted answer hands the frame
    through. So every collaborator delivers finitely many frames or packets.
\<close>

record world =
  total_frames :: int
  processed_frames :: int
  start_time :: int
  abort_obs :: "nat \<Rightarrow> bool"
  abort_reads :: nat
  pause_obs :: "nat \<Rightarrow> bool"
  pause_reads :: nat
  ifmt_streams :: "AVStream list"
  encoder :: Encoder
  rescale_ts :: "AVPacket \<Rightarrow> AVRational \<Rightarrow> AVRational \<Rightarrow> AVPacket"
  read_script :: "(int \<times> AVPacket) list"
  send_packet_script :: "int list"
  receive_frame_script :: "(int \<times> AVFrame) list"
  filter_script :: "(int \<times> AVFrame option) list"
  flush_script :: "(int \<times> AVFrame list) list"
  convert_script :: "bool list"
  alloc_script :: "bool list"
  send_frame_script :: "int list"
  receive_packet_script :: "(int \<times> AVPacket) list"
  mux_script :: "int list"
  trace :: "event list"

definition blank_packet :: AVPacket where
  "blank_packet = \<lparr>stream_index = 0, pkt_pts = 0, pkt_dts = 0, pkt_duration = 0\<rparr>"

definition blank_frame :: AVFrame where
  "blank_frame = \<lparr>pts = 0, format = AV_PIX_FMT_NONE\<rparr>"

definition poll_abort :: "world \<Rightarrow> bool \<times> world" where
  "poll_abort w = (abort_obs w (abort_reads w), w\<lparr>abort_reads := Suc (abort_reads w)\<rparr>)"

definition poll_pause :: "world \<Rightarrow> bool \<times> world" where
  "poll_pause w = (pause_obs w (pause_reads w), w\<lparr>pause_reads := Suc (pause_reads w)\<rparr>)"

text \<open>\<^verbatim>\<open>std::this_thread::sleep_for(std::chrono::milliseconds(ms))\<close>\<close>

definition sleep_for :: "nat \<Rightarrow> world \<Rightarrow> world" where
  "sleep_for ms w = w\<lparr>trace := trace w @ [EvSleep ms]\<rparr>"

text \<open>\<^verbatim>\<open>av_frame_alloc\<close> / \<^verbatim>\<open>av_packet_alloc\<close>: \<open>False\<close> is a null result.\<close>

definition av_alloc :: "world \<Rightarrow> bool \<times> world" where
  "av_alloc w =
     (case alloc_script w of
        [] \<Rightarrow> (True, w)
      | ok # rest \<Rightarrow> (ok, w\<lparr>alloc_script := rest\<rparr>))"

definition av_read_frame :: "world \<Rightarrow> (int \<times> AVPacket) \<times> world" where
  "av_read_frame w =
     (case read_script w of
        [] \<Rightarrow> ((AVERROR_EOF, blank_packet), w\<lparr>trace := trace w @ [EvReadFrame AVERROR_EOF]\<rparr>)
      | r # rest \<Rightarrow> (r, w\<lparr>read_script := rest, trace := trace w @ [EvReadFrame (fst r)]\<rparr>))"

definition avcodec_send_packet :: "AVPacket \<Rightarrow> world \<Rightarrow> int \<times> world" where
  "avcodec_send_packet packet w =
     (case send_packet_script w of
        [] \<Rightarrow> (0, w\<lparr>trace := trace w @ [EvSendPacket 0]\<rparr>)
      | r # rest \<Rightarrow> (r, w\<lparr>send_packet_script := rest, trace := trace w @ [EvSendPacket r]\<rparr>))"

definition avcodec_receive_frame :: "world \<Rightarrow> (int \<times> AVFrame) \<times> world" where
  "avcodec_receive_frame w =
     (case receive_frame_script w of
        [] \<Rightarrow> ((AVERROR_EAGAIN, blank_frame),
               w\<lparr>trace := trace w @ [EvReceiveFrame AVERROR_EAGAIN]\<rparr>)
      | r # rest \<Rightarrow>
          (r, w\<lparr>receive_frame_script := rest, trace := trace w @ [EvReceiveFrame (fst r)]\<rparr>))"

text \<open>\<^verbatim>\<open>filter->process_frame(frame, &processed_frame)\<close>: status and output pointer.\<close>

definition filter_process_frame :: "AVFrame \<Rightarrow> world \<Rightarrow> (int \<times> AVFrame option) \<times> world" where
  "filter_process_frame frame w =
     (case filter_script w of
        [] \<Rightarrow> ((0, Some frame), w\<lparr>trace := trace w @ [EvFilterProcess 0 (Some frame)]\<rparr>)
      | r # rest \<Rightarrow>
          (r, w\<lparr>filter_script := rest, trace := trace w @ [EvFilterProcess (fst r) (snd r)]\<rparr>))"

text \<open>\<^verbatim>\<open>filter->flush(flushed_frames)\<close>: status and the frames appended to the vector.\<close>

definition filter_flush :: "world \<Rightarrow> (int \<times> AVFrame list) \<times> world" where
  "filter_flush w =
     (case flush_script w of
        [] \<Rightarrow> ((0, []), w\<lparr>trace := trace w @ [EvFilterFlush 0 []]\<rparr>)
      | r # rest \<Rightarrow>
          (r, w\<lparr>flush_script := rest, trace := trace w @ [EvFilterFlush (fst r) (snd r)]\<rparr>))"

text \<open>
  Modelled from the spec: \<^verbatim>\<open>convert_avframe_pix_fmt\<close> (conversions.cpp is not among
  the sources), "a pure function converting a raw frame to a target format" that may fail;
  \<open>None\<close> is its null result.
\<close>

definition convert_avframe_pix_fmt :: "AVFrame \<Rightarrow> int \<Rightarrow> world \<Rightarrow> AVFrame option \<times> world" where
  "convert_avframe_pix_fmt frame target w =
     (case convert_script w of
        [] \<Rightarrow> (Some (frame\<lparr>format := target\<rparr>), w)
      | ok # rest \<Rightarrow>
          ((if ok then Some (frame\<lparr>format := target\<rparr>) else None), w\<lparr>convert_script := rest\<rparr>))"

text \<open>\<^verbatim>\<open>avcodec_send_frame(enc_ctx_, frame)\<close>; \<open>None\<close> is the null frame of a flush.\<close>

definition avcodec_send_frame :: "AVFrame option \<Rightarrow> world \<Rightarrow> int \<times> world" where
  "avcodec_send_frame frame w =
     (case send_frame_script w of
        [] \<Rightarrow> (0, w\<lparr>trace := trace w @ [EvSendFrame frame 0]\<rparr>)
      | r # rest \<Rightarrow> (r, w\<lparr>send_frame_script := rest, trace := trace w @ [EvSendFrame frame r]\<rparr>))"

definition avcodec_receive_packet :: "world \<Rightarrow> (int \<times> AVPacket) \<times> world" where
  "avcodec_receive_packet w =
     (case receive_packet_script w of
        [] \<Rightarrow> ((AVERROR_EAGAIN, blank_packet),
               w\<lparr>trace := trace w @ [EvReceivePacket AVERROR_EAGAIN]\<rparr>)
      | r # rest \<Rightarrow>
          (r, w\<lparr>receive_packet_script := rest, trace := trace w @ [EvReceivePacket (fst r)]\<rparr>))"

definition av_interleaved_write_frame :: "AVPacket \<Rightarrow> world \<Rightarrow> int \<times> world" where
  "av_interleaved_write_frame pkt w =
     (case mux_script w of
        [] \<Rightarrow> (0, w\<lparr>trace := trace w @ [EvMuxWrite pkt 0]\<rparr>)
      | r # rest \<Rightarrow> (r, w\<lparr>mux_script := rest, trace := trace w @ [EvMuxWrite pkt r]\<rparr>))"

text \<open>\<^verbatim>\<open>a[i]\<close> on a C array: \<open>None\<close> when the index is outside the array.\<close>

definition nth_opt :: "'a list \<Rightarrow> int \<Rightarrow> 'a option" where
  "nth_opt xs i = (if 0 \<le> i \<and> i < int (length xs) then Some (xs ! nat i) else None)"

text \<open>\<^verbatim>\<open>stream_map[i]\<close>: \<open>None\<close> when the map is null or the index is outside it.\<close>

definition stream_map_at :: "int list option \<Rightarrow> int \<Rightarrow> int option" where
  "stream_map_at m i = (case m of None \<Rightarrow> None | Some xs \<Rightarrow> nth_opt xs i)"

section \<open>Encode and mux (encoder.cpp)\<close>

text \<open>
  The receive loop shared by \<^verbatim>\<open>Encoder::write_frame\<close> (lines 248--273) and
  \<^verbatim>\<open>Encoder::flush\<close> (lines 296--321), followed by the \<^verbatim>\<open>return 0\<close> after it. In
  \<^verbatim>\<open>write_frame\<close> the loop condition \<^verbatim>\<open>ret >= 0\<close> holds whenever it is tested
  (after a send or a mux write that did not return), so both loops have this body.
\<close>

function drain_packets :: "world \<Rightarrow> rc \<times> world" where
  "drain_packets w =
     (case avcodec_receive_packet w of
        ((ret, enc_pkt), w1) \<Rightarrow>
          if ret = AVERROR_EAGAIN \<or> ret = AVERROR_EOF then (Ret 0, w1)
          else if ret < 0 then (Ret ret, w1)
          else
            (case nth_opt (ofmt_streams (encoder w1)) (out_vstream_idx (encoder w1)) of
               None \<Rightarrow> (Fault, w1)
             | Some out_vstream \<Rightarrow>
                 (case av_interleaved_write_frame
                         ((rescale_ts w1 enc_pkt (ctx_time_base (enc_ctx (encoder w1)))
                             (time_base out_vstream))
                            \<lparr>stream_index := out_vstream_idx (encoder w1)\<rparr>) w1 of
                    (ret, w2) \<Rightarrow> if ret < 0 then (Ret ret, w2) else drain_packets w2)))"
  by pat_completeness auto
termination
  by (relation "measure (\<lambda>w. length (receive_packet_script w))")
     (auto simp: avcodec_receive_packet_def av_interleaved_write_frame_def
           split: list.splits)

declare drain_packets.simps [simp del]

text \<open>
  The second half of \<^verbatim>\<open>Encoder::write_frame\<close> (lines 228--276): allocate the packet,
  send the frame, drain.
\<close>

definition send_and_drain :: "AVFrame \<Rightarrow> world \<Rightarrow> rc \<times> world" where
  "send_and_drain frame w =
     (case av_alloc w of
        (False, w1) \<Rightarrow> (Ret AVERROR_ENOMEM, w1)
      | (True, w1) \<Rightarrow>
          (case avcodec_send_frame (Some frame) w1 of
             (ret, w2) \<Rightarrow> if ret < 0 then (Ret ret, w2) else drain_packets w2))"

text \<open>
  \<^verbatim>\<open>Encoder::write_frame(AVFrame *frame, int64_t frame_idx)\<close>. The frame is the caller's
  and is freed by the caller right after the call; its updated \<^verbatim>\<open>pts\<close> is visible in the
  frame handed to \<^verbatim>\<open>avcodec_send_frame\<close>.
\<close>

definition set_fallback_pts :: "AVFrame \<Rightarrow> int \<Rightarrow> AVFrame" where
  "set_fallback_pts frame frame_idx = (if pts frame \<le> 0 then frame\<lparr>pts := frame_idx\<rparr> else frame)"

definition write_frame :: "AVFrame \<Rightarrow> int \<Rightarrow> world \<Rightarrow> rc \<times> world" where
  "write_frame frame0 frame_idx w =
     (let frame = set_fallback_pts frame0 frame_idx in
      if format frame \<noteq> ctx_pix_fmt (enc_ctx (encoder w)) then
        (case convert_avframe_pix_fmt frame (ctx_pix_fmt (enc_ctx (encoder w))) w of
           (None, w1) \<Rightarrow> (Ret AVERROR_EXTERNAL, w1)
         | (Some converted_frame, w1) \<Rightarrow> send_and_drain (converted_frame\<lparr>pts := pts frame\<rparr>) w1)
      else send_and_drain frame w)"

text \<open>
  \<^verbatim>\<open>Encoder::flush\<close>, lines 279--325. The control loop calls the flush of the
  encoder as \<^verbatim>\<open>flush_encoder(enc_ctx, ofmt_ctx)\<close>.
\<close>

definition flush_encoder :: "world \<Rightarrow> rc \<times> world" where
  "flush_encoder w =
     (case av_alloc w of
        (False, w1) \<Rightarrow> (Ret AVERROR_ENOMEM, w1)
      | (True, w1) \<Rightarrow>
          (case avcodec_send_frame None w1 of
             (ret, w2) \<Rightarrow> if ret < 0 then (Ret ret, w2) else drain_packets w2))"

section \<open>The control loop (libvideo2x.cpp)\<close>

text \<open>
  \<^verbatim>\<open>process_frames\<close> reaches the encode stage through the free functions
  \<^verbatim>\<open>write_frame(frame, enc_ctx, ofmt_ctx, vstream_idx)\<close> and
  \<^verbatim>\<open>flush_encoder(enc_ctx, ofmt_ctx)\<close>, neither of which is among the sources:
  encoder.cpp holds the members \<^verbatim>\<open>Encoder::write_frame(frame, frame_idx)\<close> and
  \<^verbatim>\<open>Encoder::flush()\<close>, which nothing in the two files calls.
\<close>

text \<open>
  Modelled from the spec: the free function
  \<^verbatim>\<open>write_frame(frame, enc_ctx, ofmt_ctx, vstream_idx)\<close> called at lines 148 and 198
  of libvideo2x.cpp. By sections 4.2 and 4.4 of the specification the control loop calls
  the encode stage's \<^verbatim>\<open>submit(frame, sequence_number)\<close>, "passing a monotonically
  increasing frame sequence counter, then increment \<^verbatim>\<open>processed_frames\<close>", and
  \<^verbatim>\<open>submit\<close> is what \<open>write_frame\<close> above does with the encoder object's own
  contexts and output stream index. The one frame counter of the control loop is
  \<^verbatim>\<open>processed_frames\<close>, "monotonically incremented, one increment per frame"; its
  value at the call is the sequence number. The stream index of the call is not used:
  the packets are tagged with the encoder object's output video stream index.
\<close>

definition submit_frame :: "AVFrame \<Rightarrow> int \<Rightarrow> world \<Rightarrow> rc \<times> world" where
  "submit_frame frame vstream_idx w = write_frame frame (processed_frames w) w"

text \<open>
  \<^verbatim>\<open>proc_ctx->processed_frames++\<close> on the \<^verbatim>\<open>int64_t\<close> counter, lines 159 and 209.
  At \<^verbatim>\<open>INT64_MAX\<close> the increment overflows a signed integer, which is undefined
  behaviour: \<open>Fault\<close>.
\<close>

definition count_frame :: "world \<Rightarrow> flow \<times> world" where
  "count_frame w =
     (if processed_frames w < INT64_MAX
      then (Proceed, w\<lparr>processed_frames := processed_frames w + 1\<rparr>)
      else (Stop Fault, w))"

text \<open>
  The flag \<^verbatim>\<open>pause\<close> may stay set for ever, so the two \<^verbatim>\<open>while\<close> loops take fuel:
  one unit per iteration, \<open>None\<close> when it runs out.

  The body of the inner loop once a frame has been received, lines 138--160: filter the
  frame, encode and write the filter's output unless in benchmark mode, count it.
  \<open>Proceed\<close> is going on with the loop.
\<close>

definition process_decoded_frame :: "AVFrame \<Rightarrow> int \<Rightarrow> bool \<Rightarrow> world \<Rightarrow> flow \<times> world" where
  "process_decoded_frame frame vstream_idx benchmark w =
     (case filter_process_frame frame w of
        ((ret, processed_frame), w1) \<Rightarrow>
          if ret < 0 \<and> ret \<noteq> AVERROR_EAGAIN then (Stop (Ret ret), w1)
          else if ret = 0 \<and> processed_frame \<noteq> None then
            (if \<not> benchmark then
               (case submit_frame (the processed_frame) vstream_idx w1 of
                  (Fault, w2) \<Rightarrow> (Stop Fault, w2)
                | (Ret ret, w2) \<Rightarrow>
                    if ret < 0 then (Stop (Ret ret), w2) else count_frame w2)
             else count_frame w1)
          else (Proceed, w1))"

text \<open>The inner loop, lines 120--166.\<close>

fun receive_loop :: "nat \<Rightarrow> int \<Rightarrow> bool \<Rightarrow> world \<Rightarrow> (flow \<times> world) option" where
  "receive_loop 0 vstream_idx benchmark w = None"
| "receive_loop (Suc n) vstream_idx benchmark w =
     (case poll_abort w of
        (aborted, w1) \<Rightarrow>
          if aborted then Some (Proceed, w1)
          else
            (case poll_pause w1 of
               (paused, w2) \<Rightarrow>
                 if paused then receive_loop n vstream_idx benchmark (sleep_for 100 w2)
                 else
                   (case avcodec_receive_frame w2 of
                      ((ret, frame), w3) \<Rightarrow>
                        if ret = AVERROR_EAGAIN \<or> ret = AVERROR_EOF then Some (Proceed, w3)
                        else if ret < 0 then Some (Stop (Ret ret), w3)
                        else
                          (case process_decoded_frame frame vstream_idx benchmark w3 of
                             (Stop r, w4) \<Rightarrow> Some (Stop r, w4)
                           | (Proceed, w4) \<Rightarrow> receive_loop n vstream_idx benchmark w4))))"

text \<open>
  The passthrough branch, lines 167--183, entered when
  \<^verbatim>\<open>encoder_config->copy_streams && stream_map[packet->stream_index] >= 0\<close>. The
  conjunction is short-circuit: the map is read only when \<^verbatim>\<open>copy_streams\<close> is set.
  \<open>None\<close> means the branch is not taken.
\<close>

definition passthrough :: "EncoderConfig \<Rightarrow> AVPacket \<Rightarrow> world \<Rightarrow> (flow \<times> world) option" where
  "passthrough encoder_config packet w =
     (if \<not> copy_streams encoder_config then None
      else
        (case stream_map_at (stream_map (encoder w)) (stream_index packet) of
           None \<Rightarrow> Some (Stop Fault, w)
         | Some out_stream_index \<Rightarrow>
             if \<not> out_stream_index \<ge> 0 then None
             else
               (case nth_opt (ifmt_streams w) (stream_index packet) of
                  None \<Rightarrow> Some (Stop Fault, w)
                | Some in_stream \<Rightarrow>
                    (case nth_opt (ofmt_streams (encoder w)) out_stream_index of
                       None \<Rightarrow> Some (Stop Fault, w)
                     | Some out_stream \<Rightarrow>
                         (case av_interleaved_write_frame
                                 ((rescale_ts w packet (time_base in_stream) (time_base out_stream))
                                    \<lparr>stream_index := out_stream_index\<rparr>) w of
                            (ret, w1) \<Rightarrow>
                              if ret < 0 then Some (Stop (Ret ret), w1)
                              else Some (Proceed, w1))))))"

text \<open>The outer loop, lines 97--185.\<close>

fun read_loop :: "nat \<Rightarrow> EncoderConfig \<Rightarrow> int \<Rightarrow> bool \<Rightarrow> world \<Rightarrow> (flow \<times> world) option" where
  "read_loop 0 encoder_config vstream_idx benchmark w = None"
| "read_loop (Suc n) encoder_config vstream_idx benchmark w =
     (case poll_abort w of
        (aborted, w1) \<Rightarrow>
          if aborted then Some (Proceed, w1)
          else
            (case av_read_frame w1 of
               ((ret, packet), w2) \<Rightarrow>
                 if ret < 0 then
                   (if ret = AVERROR_EOF then Some (Proceed, w2) else Some (Stop (Ret ret), w2))
                 else if stream_index packet = vstream_idx then
                   (case avcodec_send_packet packet w2 of
                      (ret, w3) \<Rightarrow>
                        if ret < 0 then Some (Stop (Ret ret), w3)
                        else
                          (case receive_loop n vstream_idx benchmark w3 of
                             None \<Rightarrow> None
                           | Some (Stop r, w4) \<Rightarrow> Some (Stop r, w4)
                           | Some (Proceed, w4) \<Rightarrow>
                               read_loop n encoder_config vstream_idx benchmark w4))
                 else
                   (case passthrough encoder_config packet w2 of
                      None \<Rightarrow> read_loop n encoder_config vstream_idx benchmark w2
                    | Some (Stop r, w3) \<Rightarrow> Some (Stop r, w3)
                    | Some (Proceed, w3) \<Rightarrow>
                        read_loop n encoder_config vstream_idx benchmark w3)))"

text \<open>The loop over the flushed frames, lines 197--210.\<close>

fun write_flushed :: "int \<Rightarrow> AVFrame list \<Rightarrow> world \<Rightarrow> flow \<times> world" where
  "write_flushed vstream_idx [] w = (Proceed, w)"
| "write_flushed vstream_idx (flushed_frame # rest) w =
     (case submit_frame flushed_frame vstream_idx w of
        (Fault, w1) \<Rightarrow> (Stop Fault, w1)
      | (Ret ret, w1) \<Rightarrow>
          if ret < 0 then (Stop (Ret ret), w1)
          else
            (case count_frame w1 of
               (Stop r, w2) \<Rightarrow> (Stop r, w2)
             | (Proceed, w2) \<Rightarrow> write_flushed vstream_idx rest w2))"

text \<open>
  What follows the read loop, lines 187--222: flush the filter, encode and write the
  flushed frames, flush the encoder, return its status.
\<close>

definition flush_sequence :: "int \<Rightarrow> world \<Rightarrow> rc \<times> world" where
  "flush_sequence vstream_idx w =
     (case filter_flush w of
        ((ret, flushed_frames), w1) \<Rightarrow>
          if ret < 0 then (Ret ret, w1)
          else
            (case write_flushed vstream_idx flushed_frames w1 of
               (Stop r, w2) \<Rightarrow> (r, w2)
             | (Proceed, w2) \<Rightarrow> flush_encoder w2))"

text \<open>
  What the frame-count probe (OpenCV's \<^verbatim>\<open>VideoCapture\<close>) and \<^verbatim>\<open>time(NULL)\<close>
  answer at the start of \<^verbatim>\<open>process_frames\<close>.
\<close>

record probe =
  cap_opened :: bool
  cap_frame_count :: int
  time_now :: int

text \<open>Lines 97--222 of \<^verbatim>\<open>process_frames\<close>: the read loop and what follows it.\<close>

definition read_and_flush ::
  "nat \<Rightarrow> EncoderConfig \<Rightarrow> int \<Rightarrow> bool \<Rightarrow> world \<Rightarrow> (rc \<times> world) option" where
  "read_and_flush n encoder_config vstream_idx benchmark w =
     (case read_loop n encoder_config vstream_idx benchmark w of
        None \<Rightarrow> None
      | Some (Stop r, w1) \<Rightarrow> Some (r, w1)
      | Some (Proceed, w1) \<Rightarrow> Some (flush_sequence vstream_idx w1))"

text \<open>
  \<^verbatim>\<open>process_frames\<close>: the frame-count probe, the start time, the allocation of the
  frame and of the packet (lines 48--82), then the loop. The stream map is the one of the
  encoder in the world.
\<close>

definition process_frames ::
  "nat \<Rightarrow> probe \<Rightarrow> EncoderConfig \<Rightarrow> int \<Rightarrow> bool \<Rightarrow> world \<Rightarrow> (rc \<times> world) option" where
  "process_frames n pr encoder_config vstream_idx benchmark w =
     (if \<not> cap_opened pr then Some (Ret (- 1), w)
      else
        (case av_alloc (w\<lparr>total_frames := cap_frame_count pr, start_time := time_now pr\<rparr>) of
           (False, w1) \<Rightarrow> Some (Ret AVERROR_ENOMEM, w1)
         | (True, w1) \<Rightarrow>
             (case av_alloc w1 of
                (False, w2) \<Rightarrow> Some (Ret AVERROR_ENOMEM, w2)
              | (True, w2) \<Rightarrow> read_and_flush n encoder_config vstream_idx benchmark w2)))"

section \<open>The public entry point (libvideo2x.cpp)\<close>

datatype FilterType =
    FILTER_BACKEND_LIBPLACEBO
  | FILTER_BACKEND_REALESRGAN
  | FILTER_BACKEND_OTHER

text \<open>
  Of \<^verbatim>\<open>FilterConfig\<close>, the filter type and whether the shader path and the model
  name are non-null.
\<close>

record FilterConfig =
  filter_type :: FilterType
  shader_path_set :: bool
  model_set :: bool

text \<open>
  What the set-up calls of \<^verbatim>\<open>process_video\<close> answer: hardware context creation,
  \<^verbatim>\<open>init_decoder\<close> (status, decoder context and video stream index),
  the calls inside the encoder set-up, \<^verbatim>\<open>avformat_write_header\<close>, the filter's
  construction and \<^verbatim>\<open>init\<close>, and the probe.
\<close>

record video_env =
  hwdevice_ctx_create_ret :: int
  init_decoder_ret :: int
  decoder_vstream_idx :: int
  dec_ctx :: AVCodecContext
  encoder_env :: init_env
  write_header_ret :: int
  filter_created :: bool
  filter_init_ret :: int
  frame_probe :: probe

text \<open>
  The set-up part of \<^verbatim>\<open>process_video\<close>, lines 331--439: hardware context,
  decoder, filter type, encoder, output header, filter. The log-level switch and the
  release of resources (\<^verbatim>\<open>cleanup\<close>) do not influence the status and are left out.
  \<open>hw_type_none\<close> is \<^verbatim>\<open>hw_type == AV_HWDEVICE_TYPE_NONE\<close>. The encoder is set up by
  \<open>init\<close> on a new encoder object. \<open>Some r\<close> is an early \<^verbatim>\<open>return\<close>, \<open>None\<close> is
  reaching line 441.
\<close>

definition video_setup ::
  "video_env \<Rightarrow> bool \<Rightarrow> FilterConfig \<Rightarrow> EncoderConfig \<Rightarrow> world \<Rightarrow> int option \<times> world" where
  "video_setup env hw_type_none filter_config encoder_config w =
     (if \<not> hw_type_none \<and> hwdevice_ctx_create_ret env < 0 then
        (Some (hwdevice_ctx_create_ret env), w)
      else if init_decoder_ret env < 0 then (Some (init_decoder_ret env), w)
      else if filter_type filter_config = FILTER_BACKEND_OTHER then (Some (- 1), w)
      else
        (case init (encoder_env env) (ifmt_streams w) (dec_ctx env) encoder_config
                (decoder_vstream_idx env) Encoder_new of
           (ret, e) \<Rightarrow>
             if ret < 0 then (Some ret, w\<lparr>encoder := e\<rparr>)
             else
               (let w1 = w\<lparr>encoder := e,
                           trace := trace w @ [EvWriteHeader (write_header_ret env)]\<rparr> in
                if write_header_ret env < 0 then (Some (write_header_ret env), w1)
                else if filter_type filter_config = FILTER_BACKEND_LIBPLACEBO \<and>
                        \<not> shader_path_set filter_config then (Some (- 1), w1)
                else if filter_type filter_config = FILTER_BACKEND_REALESRGAN \<and>
                        \<not> model_set filter_config then (Some (- 1), w1)
                else if \<not> filter_created env then (Some (- 1), w1)
                else if filter_init_ret env < 0 then (Some (filter_init_ret env), w1)
                else (None, w1))))"

text \<open>
  \<^verbatim>\<open>process_video\<close>: the set-up, \<^verbatim>\<open>process_frames\<close> and the check of its status
  (lines 441--459), the trailer and the final check (lines 461--472).
\<close>

definition process_video ::
  "nat \<Rightarrow> video_env \<Rightarrow> bool \<Rightarrow> bool \<Rightarrow> FilterConfig \<Rightarrow> EncoderConfig \<Rightarrow> world
     \<Rightarrow> (rc \<times> world) option" where
  "process_video n env benchmark hw_type_none filter_config encoder_config w =
     (case video_setup env hw_type_none filter_config encoder_config w of
        (Some r, w1) \<Rightarrow> Some (Ret r, w1)
      | (None, w1) \<Rightarrow>
          (case process_frames n (frame_probe env) encoder_config
                  (decoder_vstream_idx env) benchmark w1 of
             None \<Rightarrow> None
           | Some (Fault, w2) \<Rightarrow> Some (Fault, w2)
           | Some (Ret ret, w2) \<Rightarrow>
               if ret < 0 then Some (Ret ret, w2)
               else
                 (let w3 = w2\<lparr>trace := trace w2 @ [EvWriteTrailer]\<rparr> in
                  if ret < 0 \<and> ret \<noteq> AVERROR_EOF then Some (Ret ret, w3)
                  else Some (Ret 0, w3))))"

section \<open>Observations on a run\<close>

text \<open>Input streams that \<open>map_streams\<close> copies: audio and subtitle streams.\<close>

definition is_copied :: "AVStream \<Rightarrow> bool" where
  "is_copied s \<longleftrightarrow>
     codec_type (codecpar s) = AVMEDIA_TYPE_AUDIO \<or> codec_type (codecpar s) = AVMEDIA_TYPE_SUBTITLE"

text \<open>
  The input streams, with their indices (counted from \<open>i\<close>), that are not the designated
  video stream \<open>v\<close> and are copied.
\<close>

definition copied_inputs :: "int \<Rightarrow> nat \<Rightarrow> AVStream list \<Rightarrow> (nat \<times> AVStream) list" where
  "copied_inputs v i ins = filter (\<lambda>(j, s). int j \<noteq> v \<and> is_copied s) (List.enumerate i ins)"

text \<open>The \<^verbatim>\<open>pts\<close> of the frames handed to \<^verbatim>\<open>avcodec_send_frame\<close>, in call order.\<close>

fun sent_pts :: "event list \<Rightarrow> int list" where
  "sent_pts [] = []"
| "sent_pts (EvSendFrame (Some f) r # evs) = pts f # sent_pts evs"
| "sent_pts (e # evs) = sent_pts evs"

text \<open>Frames the decoder produced: successful \<^verbatim>\<open>avcodec_receive_frame\<close> calls.\<close>

fun decoded :: "event list \<Rightarrow> nat" where
  "decoded [] = 0"
| "decoded (EvReceiveFrame r # evs) = (if 0 \<le> r then Suc (decoded evs) else decoded evs)"
| "decoded (e # evs) = decoded evs"

text \<open>
  Frames the filter put out inside the loop: \<^verbatim>\<open>process_frame\<close> calls that returned 0
  and a frame.
\<close>

fun filter_outputs :: "event list \<Rightarrow> nat" where
  "filter_outputs [] = 0"
| "filter_outputs (EvFilterProcess r (Some f) # evs) =
     (if r = 0 then Suc (filter_outputs evs) else filter_outputs evs)"
| "filter_outputs (e # evs) = filter_outputs evs"

text \<open>Frames handed out by successful filter flushes.\<close>

fun flushed :: "event list \<Rightarrow> nat" where
  "flushed [] = 0"
| "flushed (EvFilterFlush r fs # evs) = (if 0 \<le> r then length fs + flushed evs else flushed evs)"
| "flushed (e # evs) = flushed evs"

text \<open>Frames the encoder accepted: \<^verbatim>\<open>avcodec_send_frame\<close> calls with a frame and a
  non-negative status.\<close>

fun encoded :: "event list \<Rightarrow> nat" where
  "encoded [] = 0"
| "encoded (EvSendFrame (Some f) r # evs) = (if 0 \<le> r then Suc (encoded evs) else encoded evs)"
| "encoded (e # evs) = encoded evs"

text \<open>The packets handed to the muxer, in call order.\<close>

fun muxed :: "event list \<Rightarrow> AVPacket list" where
  "muxed [] = []"
| "muxed (EvMuxWrite pkt r # evs) = pkt # muxed evs"
| "muxed (e # evs) = muxed evs"

text \<open>
  Two balances between the counter and the call log. The first is
  \<^verbatim>\<open>processed_frames\<close> less the frames the filter has put out, in the loop or at a
  flush. The second is the frames the encoder has accepted less the frames the control
  loop submits: the flushed frames and, unless in benchmark mode, the filter's outputs.
\<close>

definition frame_balance :: "world \<Rightarrow> int" where
  "frame_balance w =
     processed_frames w - int (filter_outputs (trace w)) - int (flushed (trace w))"

definition encode_balance :: "bool \<Rightarrow> world \<Rightarrow> int" where
  "encode_balance benchmark w =
     int (encoded (trace w)) - int (flushed (trace w)) -
       (if benchmark then 0 else int (filter_outputs (trace w)))"

text \<open>The calls made by the receive loop of the encode stage.\<close>

fun is_drain_event :: "event \<Rightarrow> bool" where
  "is_drain_event (EvReceivePacket r) = True"
| "is_drain_event (EvMuxWrite pkt r) = True"
| "is_drain_event e = False"

text \<open>
  A call of the encode stage that failed: a negative status of the encoder send, of the
  encoder receive other than "try again" and "end of stream", or of the mux write.
\<close>

fun failed :: "event \<Rightarrow> bool" where
  "failed (EvSendFrame f r) = (r < 0)"
| "failed (EvReceivePacket r) = (r < 0 \<and> r \<noteq> AVERROR_EAGAIN \<and> r \<noteq> AVERROR_EOF)"
| "failed (EvMuxWrite pkt r) = (r < 0)"
| "failed e = False"

fun status_of :: "event \<Rightarrow> int" where
  "status_of (EvSendFrame f r) = r"
| "status_of (EvReceivePacket r) = r"
| "status_of (EvMuxWrite pkt r) = r"
| "status_of (EvReadFrame r) = r"
| "status_of (EvSendPacket r) = r"
| "status_of (EvReceiveFrame r) = r"
| "status_of (EvFilterProcess r f) = r"
| "status_of (EvFilterFlush r fs) = r"
| "status_of (EvWriteHeader r) = r"
| "status_of (EvSleep ms) = 0"
| "status_of EvWriteTrailer = 0"

text \<open>
  What the call log says about a flush. The filter has been flushed once a call of its
  flush has returned a non-negative status.
\<close>

fun filter_flushed :: "event list \<Rightarrow> bool" where
  "filter_flushed [] = False"
| "filter_flushed (EvFilterFlush r fs # evs) = (0 \<le> r \<or> filter_flushed evs)"
| "filter_flushed (e # evs) = filter_flushed evs"

text \<open>
  The encoder starts to drain when it accepts the null frame, and has finished once a
  later receive has answered "try again" or "end of stream".
\<close>

datatype drain_state = Open | Draining | Finished

fun drain_step :: "drain_state \<Rightarrow> event \<Rightarrow> drain_state" where
  "drain_step Open (EvSendFrame None r) = (if 0 \<le> r then Draining else Open)"
| "drain_step Draining (EvReceivePacket r) =
     (if r = AVERROR_EAGAIN \<or> r = AVERROR_EOF then Finished else Draining)"
| "drain_step s e = s"

definition encoder_finished :: "event list \<Rightarrow> bool" where
  "encoder_finished evs \<longleftrightarrow> foldl drain_step Open evs = Finished"

text \<open>
  The filter has nothing buffered: every flush still to come hands out no frame. The
  encoder has nothing left: no receive still to come delivers a packet.
\<close>

definition filter_drained :: "world \<Rightarrow> bool" where
  "filter_drained w \<longleftrightarrow> list_all (\<lambda>r. snd r = []) (flush_script w)"

definition encoder_drained :: "world \<Rightarrow> bool" where
  "encoder_drained w \<longleftrightarrow> list_all (\<lambda>r. fst r < 0) (receive_packet_script w)"

text \<open>
  The flush contracts of the two collaborators (sections 4.2 and 4.3 of the
  specification: the flush of the filter hands out "every frame still buffered inside the
  filter", the drain of the encoder runs "until the encoder confirms it has nothing
  left"): a filter that has been flushed holds no frame, and an encoder that has been
  drained to the end hands out no further packet.
\<close>

definition honours_flush :: "world \<Rightarrow> bool" where
  "honours_flush w \<longleftrightarrow>
     (filter_flushed (trace w) \<longrightarrow> filter_drained w) \<and>
     (encoder_finished (trace w) \<longrightarrow> encoder_drained w)"

section \<open>Example inputs\<close>

definition video_stream :: AVStream where
  "video_stream =
     \<lparr>codecpar = \<lparr>codec_type = AVMEDIA_TYPE_VIDEO, codec_id = 27, codec_tag = 828601953\<rparr>,
      time_base = \<lparr>num = 1, den = 25\<rparr>\<rparr>"

definition audio_stream :: AVStream where
  "audio_stream =
     \<lparr>codecpar = \<lparr>codec_type = AVMEDIA_TYPE_AUDIO, codec_id = 86018, codec_tag = 1630826605\<rparr>,
      time_base = \<lparr>num = 1, den = 48000\<rparr>\<rparr>"

definition data_stream :: AVStream where
  "data_stream =
     \<lparr>codecpar = \<lparr>codec_type = AVMEDIA_TYPE_UNKNOWN, codec_id = 0, codec_tag = 0\<rparr>,
      time_base = \<lparr>num = 1, den = 1000\<rparr>\<rparr>"

definition example_dec_ctx :: AVCodecContext where
  "example_dec_ctx =
     \<lparr>ctx_pix_fmt = 0, ctx_time_base = \<lparr>num = 1, den = 25\<rparr>, ctx_framerate = \<lparr>num = 25, den = 1\<rparr>\<rparr>"

text \<open>Every library call of the encoder set-up succeeds.\<close>

definition example_init_env :: init_env where
  "example_init_env =
     \<lparr>ofmt_alloc_ok = True, encoder_found = True, new_stream_ok = (\<lambda>k. True),
      fresh_stream = \<lparr>codecpar = \<lparr>codec_type = AVMEDIA_TYPE_UNKNOWN, codec_id = 0, codec_tag = 0\<rparr>,
                      time_base = \<lparr>num = 0, den = 1\<rparr>\<rparr>,
      enc_ctx_alloc_ok = True, default_pix_fmt = 0,
      guessed_frame_rate = \<lparr>num = 25, den = 1\<rparr>, avcodec_open2_ret = 0,
      parameters_from_context_ret = 0,
      video_codecpar = \<lparr>codec_type = AVMEDIA_TYPE_VIDEO, codec_id = 27, codec_tag = 0\<rparr>,
      stream_map_alloc_ok = True, uninit_int = 7, parameters_copy_ret = (\<lambda>i. 0),
      oformat_nofile = False, avio_open_ret = 0\<rparr>"

definition copy_config :: EncoderConfig where
  "copy_config = \<lparr>copy_streams = True, pix_fmt = 0\<rparr>"

definition plain_config :: EncoderConfig where
  "plain_config = \<lparr>copy_streams = False, pix_fmt = 0\<rparr>"

text \<open>The encoder after a set-up for a single video stream, without stream copying.\<close>

definition example_encoder :: Encoder where
  "example_encoder =
     \<lparr>ofmt_streams = [\<lparr>codecpar = \<lparr>codec_type = AVMEDIA_TYPE_VIDEO, codec_id = 27, codec_tag = 0\<rparr>,
                       time_base = \<lparr>num = 1, den = 25\<rparr>\<rparr>],
      enc_ctx = example_dec_ctx, out_vstream_idx = 0, stream_map = None, log_warn = []\<rparr>"

text \<open>
  A world in which nothing is scripted: the input is empty, the flags are never set and
  every collaborator gives its idle answer.
\<close>

definition idle_world :: world where
  "idle_world =
     \<lparr>total_frames = 0, processed_frames = 0, start_time = 0,
      abort_obs = (\<lambda>k. False), abort_reads = 0, pause_obs = (\<lambda>k. False), pause_reads = 0,
      ifmt_streams = [video_stream], encoder = example_encoder,
      rescale_ts = (\<lambda>pkt src dst. pkt),
      read_script = [], send_packet_script = [], receive_frame_script = [],
      filter_script = [], flush_script = [], convert_script = [], alloc_script = [],
      send_frame_script = [], receive_packet_script = [], mux_script = [], trace = []\<rparr>"

definition example_probe :: probe where
  "example_probe = \<lparr>cap_opened = True, cap_frame_count = 10, time_now = 1700000000\<rparr>"

definition video_packet :: AVPacket where
  "video_packet = \<lparr>stream_index = 0, pkt_pts = 0, pkt_dts = 0, pkt_duration = 1\<rparr>"

definition audio_packet :: AVPacket where
  "audio_packet = \<lparr>stream_index = 1, pkt_pts = 0, pkt_dts = 0, pkt_duration = 1024\<rparr>"

definition encoded_packet :: AVPacket where
  "encoded_packet = \<lparr>stream_index = 0, pkt_pts = 0, pkt_dts = 0, pkt_duration = 1\<rparr>"

text \<open>A decoded frame that carries no presentation timestamp.\<close>

definition frame_without_pts :: AVFrame where
  "frame_without_pts = \<lparr>pts = 0, format = 0\<rparr>"

text \<open>
  Ten video packets; the decoder answers each with one frame without timestamp and then
  "try again"; the filter hands every frame through.
\<close>

definition ten_frame_world :: world where
  "ten_frame_world =
     idle_world
       \<lparr>read_script := replicate 10 (0, video_packet),
        receive_frame_script :=
          concat (replicate 10 [(0, frame_without_pts), (AVERROR_EAGAIN, blank_frame)])\<rparr>"

text \<open>The controller has set \<^verbatim>\<open>abort\<close> before the run; the filter still holds a frame.\<close>

definition aborted_world :: world where
  "aborted_world =
     idle_world
       \<lparr>abort_obs := (\<lambda>k. True),
        read_script := [(0, video_packet)],
        flush_script := [(0, [frame_without_pts])]\<rparr>"

text \<open>
  One video packet, one decoded frame; the filter keeps the frame ("try again") and hands
  nothing out at the flush.
\<close>

definition lossy_filter_world :: world where
  "lossy_filter_world =
     idle_world
       \<lparr>read_script := [(0, video_packet)],
        receive_frame_script := [(0, frame_without_pts)],
        filter_script := [(AVERROR_EAGAIN, None)]\<rparr>"

text \<open>The decoder rejects the first packet with the end-of-file status.\<close>

definition decoder_eof_world :: world where
  "decoder_eof_world =
     idle_world
       \<lparr>read_script := [(0, video_packet)],
        send_packet_script := [AVERROR_EOF]\<rparr>"

definition example_video_env :: video_env where
  "example_video_env =
     \<lparr>hwdevice_ctx_create_ret = 0, init_decoder_ret = 0, decoder_vstream_idx = 0,
      dec_ctx = example_dec_ctx, encoder_env = example_init_env, write_header_ret = 0,
      filter_created = True, filter_init_ret = 0, frame_probe = example_probe\<rparr>"

definition example_filter_config :: FilterConfig where
  "example_filter_config =
     \<lparr>filter_type = FILTER_BACKEND_REALESRGAN, shader_path_set = False, model_set = True\<rparr>"

text \<open>
  The encoder after a set-up with stream copying for a video, an audio and an unknown-type
  input stream.
\<close>

definition copy_encoder :: Encoder where
  "copy_encoder =
     \<lparr>ofmt_streams = [\<lparr>codecpar = \<lparr>codec_type = AVMEDIA_TYPE_VIDEO, codec_id = 27, codec_tag = 0\<rparr>,
                       time_base = \<lparr>num = 1, den = 25\<rparr>\<rparr>, copied_stream audio_stream],
      enc_ctx = example_dec_ctx, out_vstream_idx = 0, stream_map = Some [0, 1, - 1], log_warn = [2]\<rparr>"

text \<open>That input, with one audio packet to read.\<close>

definition copy_world :: world where
  "copy_world =
     idle_world
       \<lparr>ifmt_streams := [video_stream, audio_stream, data_stream],
        encoder := copy_encoder,
        read_script := [(0, audio_packet)]\<rparr>"

text \<open>An audio packet arrives although streams are not copied.\<close>

definition audio_only_world :: world where
  "audio_only_world = idle_world\<lparr>read_script := [(0, audio_packet)]\<rparr>"

text \<open>The controller holds \<^verbatim>\<open>pause\<close> during the first two polls.\<close>

definition paused_world :: world where
  "paused_world = idle_world\<lparr>pause_obs := (\<lambda>k. k < 2)\<rparr>"

text \<open>The encoder hands out one packet and the muxer rejects it.\<close>

definition mux_error_world :: world where
  "mux_error_world =
     idle_world\<lparr>receive_packet_script := [(0, encoded_packet)], mux_script := [- 5]\<rparr>"

text \<open>The filter holds two frames for the flush, the encoder one packet.\<close>

definition buffered_world :: world where
  "buffered_world =
     idle_world
       \<lparr>flush_script := [(0, [frame_without_pts, frame_without_pts])],
        receive_packet_script := [(0, encoded_packet)]\<rparr>"

section \<open>Properties of the encoder set-up\<close>

lemma averror_negative:
  "AVERROR_EOF < 0" "AVERROR_EAGAIN < 0" "AVERROR_ENOMEM < 0" "AVERROR_EINVAL < 0"
  "AVERROR_UNKNOWN < 0" "AVERROR_EXTERNAL < 0" "AVERROR_ENCODER_NOT_FOUND < 0"
  by (simp_all add: AVERROR_EOF_def AVERROR_EAGAIN_def AVERROR_ENOMEM_def AVERROR_EINVAL_def
      AVERROR_UNKNOWN_def AVERROR_EXTERNAL_def AVERROR_ENCODER_NOT_FOUND_def)

lemma set_stream_map_simps [simp]:
  "ofmt_streams (set_stream_map i x e) = ofmt_streams e"
  "out_vstream_idx (set_stream_map i x e) = out_vstream_idx e"
  "log_warn (set_stream_map i x e) = log_warn e"
  "enc_ctx (set_stream_map i x e) = enc_ctx e"
  "stream_map (set_stream_map i x e) = map_option (\<lambda>m. m[i := x]) (stream_map e)"
  by (simp_all add: set_stream_map_def)

lemma copied_inputs_Cons:
  "copied_inputs v i (s # rest) =
     (if int i \<noteq> v \<and> is_copied s then [(i, s)] else []) @ copied_inputs v (Suc i) rest"
  by (simp add: copied_inputs_def)

lemma copied_inputs_Nil [simp]: "copied_inputs v i [] = []"
  by (simp add: copied_inputs_def)

lemma map_streams_frame:
  "map_streams env v i ins e = (None, e') \<Longrightarrow> stream_map e = Some m \<Longrightarrow>
     \<exists>m'. stream_map e' = Some m' \<and> length m' = length m \<and> (\<forall>j<i. m' ! j = m ! j)"
proof (induction ins arbitrary: i e m)
  case Nil
  then show ?case by simp
next
  case (Cons s rest)
  have step: "\<And>x e1. map_streams env v (Suc i) rest e1 = (None, e') \<Longrightarrow>
      stream_map e1 = Some (m[i := x]) \<Longrightarrow>
      \<exists>m'. stream_map e' = Some m' \<and> length m' = length m \<and> (\<forall>j<i. m' ! j = m ! j)"
  proof -
    fix x e1
    assume "map_streams env v (Suc i) rest e1 = (None, e')" "stream_map e1 = Some (m[i := x])"
    from Cons.IH[OF this] obtain m' where
      "stream_map e' = Some m'" "length m' = length (m[i := x])" "\<forall>j<Suc i. m' ! j = (m[i := x]) ! j"
      by blast
    then show "\<exists>m'. stream_map e' = Some m' \<and> length m' = length m \<and> (\<forall>j<i. m' ! j = m ! j)"
      by auto
  qed
  from Cons.prems show ?case
    by (auto split: if_splits intro!: step simp: Cons.prems)
qed

lemma map_streams_ofmt:
  "map_streams env v i ins e = (None, e') \<Longrightarrow>
     ofmt_streams e' = ofmt_streams e @ map (copied_stream \<circ> snd) (copied_inputs v i ins) \<and>
     out_vstream_idx e' = out_vstream_idx e \<and> enc_ctx e' = enc_ctx e \<and>
     set (log_warn e) \<subseteq> set (log_warn e')"
proof (induction ins arbitrary: i e)
  case Nil
  then show ?case by simp
next
  case (Cons s rest)
  show ?case
    using Cons.prems Cons.IH[of "Suc i"]
    by (fastforce split: if_splits simp: copied_inputs_Cons is_copied_def)
qed

lemma map_streams_entry:
  "map_streams env v i ins e = (None, e') \<Longrightarrow> stream_map e = Some m \<Longrightarrow>
   i + length ins \<le> length m \<Longrightarrow> k < length ins \<Longrightarrow>
   the (stream_map e') ! (i + k) =
     (if int (i + k) = v then out_vstream_idx e
      else if is_copied (ins ! k)
           then int (length (ofmt_streams e) + length (copied_inputs v i (take k ins)))
           else - 1) \<and>
   (int (i + k) \<noteq> v \<and> \<not> is_copied (ins ! k) \<longrightarrow> int (i + k) \<in> set (log_warn e'))"
proof (induction ins arbitrary: i e m k)
  case Nil
  then show ?case by simp
next
  case (Cons s rest)
  show ?case
  proof (cases k)
    case 0
    have il: "i < length m" using Cons.prems by simp
    have head: "\<And>x e1. map_streams env v (Suc i) rest e1 = (None, e') \<Longrightarrow>
        stream_map e1 = Some (m[i := x]) \<Longrightarrow> the (stream_map e') ! i = x"
      using map_streams_frame il by fastforce
    have warn: "\<And>e1. map_streams env v (Suc i) rest e1 = (None, e') \<Longrightarrow>
        int i \<in> set (log_warn e1) \<Longrightarrow> int i \<in> set (log_warn e')"
      using map_streams_ofmt by blast
    show ?thesis
      using Cons.prems 0 head warn
      by (auto split: if_splits simp: is_copied_def)
  next
    case (Suc k')
    have rec: "\<And>e1 x. map_streams env v (Suc i) rest e1 = (None, e') \<Longrightarrow>
        stream_map e1 = Some (m[i := x]) \<Longrightarrow>
        the (stream_map e') ! (Suc i + k') =
          (if int (Suc i + k') = v then out_vstream_idx e1
           else if is_copied (rest ! k')
                then int (length (ofmt_streams e1) + length (copied_inputs v (Suc i) (take k' rest)))
                else - 1) \<and>
        (int (Suc i + k') \<noteq> v \<and> \<not> is_copied (rest ! k') \<longrightarrow> int (Suc i + k') \<in> set (log_warn e'))"
      using Cons.IH[of "Suc i" _ _ k'] Cons.prems Suc by simp
    consider (vid) "int i = v"
      | (skip) "int i \<noteq> v" "\<not> is_copied s"
      | (copy) "int i \<noteq> v" "is_copied s" by blast
    then show ?thesis
    proof cases
      case vid
      with Cons.prems have run: "map_streams env v (Suc i) rest (set_stream_map i (out_vstream_idx e) e) = (None, e')"
        by simp
      from rec[OF run, of "out_vstream_idx e"] Cons.prems vid Suc show ?thesis
        by (simp add: copied_inputs_Cons)
    next
      case skip
      with Cons.prems have run: "map_streams env v (Suc i) rest
          ((set_stream_map i (- 1) e)\<lparr>log_warn := log_warn e @ [int i]\<rparr>) = (None, e')"
        by (simp add: is_copied_def)
      from rec[OF run, of "- 1"] Cons.prems skip Suc show ?thesis
        by (simp add: copied_inputs_Cons)
    next
      case copy
      with Cons.prems have run: "map_streams env v (Suc i) rest
          (set_stream_map i (int (length (ofmt_streams e)))
             (e\<lparr>ofmt_streams := ofmt_streams e @ [copied_stream s]\<rparr>)) = (None, e')"
        by (simp add: is_copied_def split: if_splits)
      from rec[OF run, of "int (length (ofmt_streams e))"] Cons.prems copy Suc show ?thesis
        by (simp add: copied_inputs_Cons)
    qed
  qed
qed

lemma copied_inputs_split:
  assumes "k < length ins" "int (i + k) \<noteq> v" "is_copied (ins ! k)"
  shows "copied_inputs v i ins =
           copied_inputs v i (take k ins) @ (i + k, ins ! k) # copied_inputs v (Suc (i + k)) (drop (Suc k) ins)"
proof -
  have "ins = take k ins @ ins ! k # drop (Suc k) ins"
    using assms(1) by (simp add: id_take_nth_drop)
  then have "List.enumerate i ins =
      List.enumerate i (take k ins) @ (i + k, ins ! k) # List.enumerate (Suc (i + k)) (drop (Suc k) ins)"
    using assms(1) by (metis enumerate_append_eq enumerate_simps(2) length_take min.absorb2 less_imp_le_nat add_Suc_right)
  then show ?thesis
    using assms(2,3) by (simp add: copied_inputs_def)
qed

lemma map_streams_status: "map_streams env v i ins e = (Some r, e') \<Longrightarrow> r < 0"
proof (induction ins arbitrary: i e)
  case Nil
  then show ?case by simp
next
  case (Cons s rest)
  show ?case
    using Cons.prems Cons.IH[of "Suc i"] averror_negative(5)
    by (auto split: if_splits)
qed

lemma init_video_stream_status: "init_video_stream env dec cfg e0 = (Some r, e1) \<Longrightarrow> r < 0"
  unfolding init_video_stream_def Let_def
  using averror_negative
  by (simp split: if_split_asm)

lemma init_video_stream_done:
  "init_video_stream env dec cfg e0 = (None, e1) \<Longrightarrow>
     length (ofmt_streams e1) = 1 \<and> out_vstream_idx e1 = 0 \<and> stream_map e1 = stream_map e0"
  unfolding init_video_stream_def Let_def
  by (auto split: if_split_asm)

text \<open>A successful set-up with stream copying went through the mapping loop.\<close>

lemma init_success_copy:
  assumes "init env ins dec cfg v e0 = (0, e')" "copy_streams cfg"
  shows "\<exists>e1. map_streams env v 0 ins e1 = (None, e') \<and>
              stream_map e1 = Some (replicate (length ins) (uninit_int env)) \<and>
              length (ofmt_streams e1) = 1 \<and> out_vstream_idx e1 = 0"
proof (cases "init_video_stream env dec cfg e0")
  case (Pair r e)
  show ?thesis
  proof (cases r)
    case (Some x)
    with Pair assms init_video_stream_status[of env dec cfg e0 x e] show ?thesis
      by (simp add: init_def)
  next
    case None
    let ?e1 = "e\<lparr>stream_map := Some (replicate (length ins) (uninit_int env))\<rparr>"
    from init_video_stream_done[of env dec cfg e0 e] Pair None
    have e: "length (ofmt_streams e) = 1" "out_vstream_idx e = 0" by simp_all
    obtain r2 e2 where m: "map_streams env v 0 ins ?e1 = (r2, e2)" by (cases "map_streams env v 0 ins ?e1")
    show ?thesis
    proof (cases r2)
      case (Some y)
      with map_streams_status[of env v 0 ins ?e1 y e2] m Pair None assms averror_negative(3)
      show ?thesis by (simp add: init_def split: if_split_asm)
    next
      case None2: None
      with m Pair None assms averror_negative(3) have "e2 = e'"
        by (simp add: init_def split: if_split_asm)
      with m None2 e show ?thesis by (intro exI[of _ ?e1]) simp
    qed
  qed
qed

lemma init_video_stream_map:
  "init_video_stream env dec cfg e0 = (r, e1) \<Longrightarrow> stream_map e1 = stream_map e0"
  unfolding init_video_stream_def Let_def
  by (auto split: if_split_asm)

lemma init_no_copy:
  assumes "\<not> copy_streams cfg"
  shows "stream_map (snd (init env ins dec cfg v e0)) = stream_map e0"
proof (cases "init_video_stream env dec cfg e0")
  case (Pair r e)
  with init_video_stream_map[of env dec cfg e0 r e] assms show ?thesis
    by (cases r) (simp_all add: init_def)
qed

lemma init_status: "fst (init env ins dec cfg v e0) \<le> 0"
proof (cases "init_video_stream env dec cfg e0")
  case (Pair r e)
  show ?thesis
  proof (cases r)
    case (Some x)
    with Pair init_video_stream_status[of env dec cfg e0 x e] show ?thesis
      by (simp add: init_def)
  next
    case None
    let ?e1 = "e\<lparr>stream_map := Some (replicate (length ins) (uninit_int env))\<rparr>"
    obtain r2 e2 where m: "map_streams env v 0 ins ?e1 = (r2, e2)"
      by (cases "map_streams env v 0 ins ?e1")
    have "r2 = Some y \<Longrightarrow> y < 0" for y
      using map_streams_status[of env v 0 ins ?e1 y e2] m by simp
    with Pair None m averror_negative(3) show ?thesis
      by (cases r2) (auto simp: init_def)
  qed
qed

text \<open>
  Claim C5. After a successful \<open>init\<close> with \<^verbatim>\<open>copy_streams\<close> set, every input
  stream \<open>k\<close> other than the designated video stream is treated by its media type. An
  audio or subtitle stream is mapped to a new output stream \<open>j\<close> (not the video stream's
  slot 0) whose codec parameters are those of the input with \<^verbatim>\<open>codec_tag = 0\<close> and
  whose time base is the input's. Any other stream is mapped to \<open>-1\<close> and its index is in
  the warnings. The output holds the video stream and one stream per copied input, no
  more.
\<close>

theorem init_maps_other_streams:
  assumes ok: "init env ins dec cfg v e0 = (0, e')"
    and copy: "copy_streams cfg"
    and k: "k < length ins" "int k \<noteq> v"
  shows "(if is_copied (ins ! k)
          then \<exists>j. stream_map_at (stream_map e') (int k) = Some (int j) \<and>
                   0 < j \<and> j < length (ofmt_streams e') \<and>
                   codecpar (ofmt_streams e' ! j) = (codecpar (ins ! k))\<lparr>codec_tag := 0\<rparr> \<and>
                   time_base (ofmt_streams e' ! j) = time_base (ins ! k)
          else stream_map_at (stream_map e') (int k) = Some (- 1) \<and> int k \<in> set (log_warn e')) \<and>
         length (ofmt_streams e') = 1 + length (copied_inputs v 0 ins)"
proof -
  from init_success_copy[OF ok copy] obtain e1 where
    run: "map_streams env v 0 ins e1 = (None, e')" and
    sm: "stream_map e1 = Some (replicate (length ins) (uninit_int env))" and
    one: "length (ofmt_streams e1) = 1" and ov: "out_vstream_idx e1 = 0"
    by blast
  from map_streams_frame[OF run sm] obtain m' where
    m': "stream_map e' = Some m'" "length m' = length ins" by auto
  have streams: "ofmt_streams e' = ofmt_streams e1 @ map (copied_stream \<circ> snd) (copied_inputs v 0 ins)"
    using map_streams_ofmt[OF run] by simp
  have entry: "m' ! k =
     (if int k = v then out_vstream_idx e1
      else if is_copied (ins ! k)
           then int (length (ofmt_streams e1) + length (copied_inputs v 0 (take k ins)))
           else - 1)"
    and warn: "int k \<noteq> v \<and> \<not> is_copied (ins ! k) \<longrightarrow> int k \<in> set (log_warn e')"
    using map_streams_entry[OF run sm _ k(1)] m' by simp_all
  have at: "stream_map_at (stream_map e') (int k) = Some (m' ! k)"
    using m' k(1) by (simp add: stream_map_at_def nth_opt_def)
  have count: "length (ofmt_streams e') = 1 + length (copied_inputs v 0 ins)"
    using streams one by simp
  show ?thesis
  proof (cases "is_copied (ins ! k)")
    case False
    with entry warn at k(2) count show ?thesis by simp
  next
    case True
    let ?j = "length (ofmt_streams e1) + length (copied_inputs v 0 (take k ins))"
    from copied_inputs_split[of k ins 0 v] k True
    have split: "copied_inputs v 0 ins =
        copied_inputs v 0 (take k ins) @ (k, ins ! k) # copied_inputs v (Suc k) (drop (Suc k) ins)"
      by simp
    have nth: "ofmt_streams e' ! ?j = copied_stream (ins ! k)"
      by (simp add: streams nth_append) (simp add: split nth_append)
    have lt: "?j < length (ofmt_streams e')"
      by (simp add: streams) (simp add: split)
    have a: "stream_map_at (stream_map e') (int k) = Some (int ?j)"
      using at entry True k(2) by simp
    have b: "0 < ?j" using one by simp
    have c: "codecpar (ofmt_streams e' ! ?j) = (codecpar (ins ! k))\<lparr>codec_tag := 0\<rparr>"
      "time_base (ofmt_streams e' ! ?j) = time_base (ins ! k)"
      by (simp_all add: nth copied_stream_def)
    have "\<exists>j. stream_map_at (stream_map e') (int k) = Some (int j) \<and>
                   0 < j \<and> j < length (ofmt_streams e') \<and>
                   codecpar (ofmt_streams e' ! j) = (codecpar (ins ! k))\<lparr>codec_tag := 0\<rparr> \<and>
                   time_base (ofmt_streams e' ! j) = time_base (ins ! k)"
      using a b lt c by (intro exI[of _ ?j]) simp
    then show ?thesis using True count by simp
  qed
qed

text \<open>One video, one audio and one unknown-type stream give two output streams.\<close>

lemma example_init:
  "init example_init_env [video_stream, audio_stream, data_stream] example_dec_ctx copy_config 0 Encoder_new =
   (0, \<lparr>ofmt_streams = [\<lparr>codecpar = \<lparr>codec_type = AVMEDIA_TYPE_VIDEO, codec_id = 27, codec_tag = 0\<rparr>,
                       time_base = \<lparr>num = 1, den = 25\<rparr>\<rparr>, copied_stream audio_stream],
      enc_ctx = example_dec_ctx, out_vstream_idx = 0, stream_map = Some [0, 1, - 1], log_warn = [2]\<rparr>)"
  by (simp add: init_def init_video_stream_def example_init_env_def video_stream_def audio_stream_def data_stream_def
      example_dec_ctx_def copy_config_def Encoder_new_def AV_PIX_FMT_NONE_def set_stream_map_def Let_def)

theorem init_maps_other_streams_witness:
  "length (ofmt_streams (snd (init example_init_env [video_stream, audio_stream, data_stream]
       example_dec_ctx copy_config 0 Encoder_new))) = 2"
proof -
  have c: "copy_streams copy_config" by (simp add: copy_config_def)
  have k: "(1::nat) < length [video_stream, audio_stream, data_stream]" "int 1 \<noteq> 0" by simp_all
  have n: "length (copied_inputs 0 0 [video_stream, audio_stream, data_stream]) = 1"
    by (simp add: copied_inputs_def is_copied_def video_stream_def audio_stream_def data_stream_def)
  from init_maps_other_streams[OF example_init c k] n show ?thesis
    by (simp add: example_init)
qed


section \<open>What each call changes\<close>

lemma sent_pts_append [simp]: "sent_pts (xs @ ys) = sent_pts xs @ sent_pts ys"
  by (induction xs rule: sent_pts.induct) simp_all

lemma decoded_append [simp]: "decoded (xs @ ys) = decoded xs + decoded ys"
  by (induction xs rule: decoded.induct) simp_all

lemma filter_outputs_append [simp]: "filter_outputs (xs @ ys) = filter_outputs xs + filter_outputs ys"
  by (induction xs rule: filter_outputs.induct) simp_all

lemma flushed_append [simp]: "flushed (xs @ ys) = flushed xs + flushed ys"
  by (induction xs rule: flushed.induct) simp_all

lemma encoded_append [simp]: "encoded (xs @ ys) = encoded xs + encoded ys"
  by (induction xs rule: encoded.induct) simp_all

lemma muxed_append [simp]: "muxed (xs @ ys) = muxed xs @ muxed ys"
  by (induction xs rule: muxed.induct) simp_all

lemma av_alloc_eff:
  "av_alloc w = (ok, w') \<Longrightarrow> \<exists>s. w' = w\<lparr>alloc_script := s\<rparr>"
  by (auto simp: av_alloc_def split: list.splits intro: exI[of _ "alloc_script w"])

lemma av_read_frame_eff:
  "av_read_frame w = ((r, pkt), w') \<Longrightarrow>
     \<exists>s. w' = w\<lparr>read_script := s, trace := trace w @ [EvReadFrame r]\<rparr>"
  by (auto simp: av_read_frame_def split: list.splits intro: exI[of _ "read_script w"])

lemma avcodec_send_packet_eff:
  "avcodec_send_packet pkt w = (r, w') \<Longrightarrow>
     \<exists>s. w' = w\<lparr>send_packet_script := s, trace := trace w @ [EvSendPacket r]\<rparr>"
  by (auto simp: avcodec_send_packet_def split: list.splits intro: exI[of _ "send_packet_script w"])

lemma avcodec_receive_frame_eff:
  "avcodec_receive_frame w = ((r, f), w') \<Longrightarrow>
     \<exists>s. w' = w\<lparr>receive_frame_script := s, trace := trace w @ [EvReceiveFrame r]\<rparr>"
  by (auto simp: avcodec_receive_frame_def split: list.splits intro: exI[of _ "receive_frame_script w"])

lemma filter_process_frame_eff:
  "filter_process_frame f w = ((r, out), w') \<Longrightarrow>
     \<exists>s. w' = w\<lparr>filter_script := s, trace := trace w @ [EvFilterProcess r out]\<rparr>"
  by (auto simp: filter_process_frame_def split: list.splits intro: exI[of _ "filter_script w"])

lemma filter_flush_eff:
  "filter_flush w = ((r, fs), w') \<Longrightarrow>
     \<exists>s. w' = w\<lparr>flush_script := s, trace := trace w @ [EvFilterFlush r fs]\<rparr>"
  by (auto simp: filter_flush_def split: list.splits intro: exI[of _ "flush_script w"])

lemma convert_eff:
  "convert_avframe_pix_fmt f t w = (out, w') \<Longrightarrow> \<exists>s. w' = w\<lparr>convert_script := s\<rparr>"
  by (auto simp: convert_avframe_pix_fmt_def split: list.splits intro: exI[of _ "convert_script w"])

lemma avcodec_send_frame_eff:
  "avcodec_send_frame f w = (r, w') \<Longrightarrow>
     \<exists>s. w' = w\<lparr>send_frame_script := s, trace := trace w @ [EvSendFrame f r]\<rparr>"
  by (auto simp: avcodec_send_frame_def split: list.splits intro: exI[of _ "send_frame_script w"])

lemma avcodec_receive_packet_eff:
  "avcodec_receive_packet w = ((r, pkt), w') \<Longrightarrow>
     \<exists>s. w' = w\<lparr>receive_packet_script := s, trace := trace w @ [EvReceivePacket r]\<rparr>"
  by (auto simp: avcodec_receive_packet_def split: list.splits intro: exI[of _ "receive_packet_script w"])

lemma av_interleaved_write_frame_eff:
  "av_interleaved_write_frame pkt w = (r, w') \<Longrightarrow>
     \<exists>s. w' = w\<lparr>mux_script := s, trace := trace w @ [EvMuxWrite pkt r]\<rparr>"
  by (auto simp: av_interleaved_write_frame_def split: list.splits intro: exI[of _ "mux_script w"])


lemma drain_events_quiet:
  "list_all is_drain_event evs \<Longrightarrow>
     encoded evs = 0 \<and> filter_outputs evs = 0 \<and> flushed evs = 0 \<and> decoded evs = 0 \<and>
     sent_pts evs = []"
proof (induction evs)
  case Nil
  then show ?case by simp
next
  case (Cons e evs)
  then show ?case by (cases e) simp_all
qed

lemma drain_packets_eff:
  "drain_packets w = (rc, w') \<Longrightarrow>
     encoder w' = encoder w \<and> processed_frames w' = processed_frames w \<and>
     (\<exists>evs. trace w' = trace w @ evs \<and> list_all is_drain_event evs)"
proof (induction w arbitrary: rc w' rule: drain_packets.induct)
  case (1 w)
  obtain ret enc_pkt w1 where rcv: "avcodec_receive_packet w = ((ret, enc_pkt), w1)"
    by (metis prod.exhaust)
  from avcodec_receive_packet_eff[OF rcv] obtain s1 where
    w1: "w1 = w\<lparr>receive_packet_script := s1, trace := trace w @ [EvReceivePacket ret]\<rparr>" by blast
  show ?case
  proof (cases "ret = AVERROR_EAGAIN \<or> ret = AVERROR_EOF \<or> ret < 0")
    case True
    with "1.prems" rcv have "w' = w1"
      by (subst (asm) drain_packets.simps) (auto split: if_splits)
    with w1 show ?thesis by simp
  next
    case False
    show ?thesis
    proof (cases "nth_opt (ofmt_streams (encoder w1)) (out_vstream_idx (encoder w1))")
      case None
      with "1.prems" rcv False have "w' = w1"
        by (subst (asm) drain_packets.simps) (auto split: if_splits)
      with w1 show ?thesis by simp
    next
      case (Some out_vstream)
      let ?pkt = "(rescale_ts w1 enc_pkt (ctx_time_base (enc_ctx (encoder w1)))
                     (time_base out_vstream))\<lparr>stream_index := out_vstream_idx (encoder w1)\<rparr>"
      obtain ret2 w2 where mux: "av_interleaved_write_frame ?pkt w1 = (ret2, w2)"
        by (metis prod.exhaust)
      from av_interleaved_write_frame_eff[OF mux] obtain s2 where
        w2: "w2 = w1\<lparr>mux_script := s2, trace := trace w1 @ [EvMuxWrite ?pkt ret2]\<rparr>" by blast
      show ?thesis
      proof (cases "ret2 < 0")
        case True
        with "1.prems" rcv False Some mux have "w' = w2"
          by (subst (asm) drain_packets.simps) (auto split: if_splits)
        with w1 w2 show ?thesis by simp
      next
        case nonneg: False
        with "1.prems" rcv False Some mux have rec: "drain_packets w2 = (rc, w')"
          by (subst (asm) drain_packets.simps) (auto split: if_splits)
        from False have a: "\<not> (ret = AVERROR_EAGAIN \<or> ret = AVERROR_EOF)" "\<not> ret < 0" by auto
        from "1.IH"[OF rcv[symmetric] refl a Some mux[symmetric] nonneg rec]
        obtain evs where ih: "encoder w' = encoder w2" "processed_frames w' = processed_frames w2"
          "trace w' = trace w2 @ evs" "list_all is_drain_event evs" by blast
        have "trace w' = trace w @ ([EvReceivePacket ret, EvMuxWrite ?pkt ret2] @ evs)"
          using ih(3) w1 w2 by simp
        moreover have "list_all is_drain_event ([EvReceivePacket ret, EvMuxWrite ?pkt ret2] @ evs)"
          using ih(4) by simp
        ultimately show ?thesis using ih(1,2) w1 w2 by (simp del: append.simps)
      qed
    qed
  qed
qed


lemma send_and_drain_eff:
  assumes "send_and_drain f w = (rc, w')"
  shows "encoder w' = encoder w \<and> processed_frames w' = processed_frames w \<and>
     (\<exists>evs. trace w' = trace w @ evs \<and> filter_outputs evs = 0 \<and> flushed evs = 0 \<and>
            decoded evs = 0 \<and> encoded evs \<le> 1 \<and>
            (rc = Fault \<or> (\<exists>r\<ge>0. rc = Ret r) \<longrightarrow>
               encoded evs = 1 \<and> sent_pts evs = [pts f]))"
proof -
  obtain ok w1 where al: "av_alloc w = (ok, w1)" by (metis prod.exhaust)
  from av_alloc_eff[OF al] obtain s1 where w1: "w1 = w\<lparr>alloc_script := s1\<rparr>" by blast
  show ?thesis
  proof (cases ok)
    case False
    with assms al have "w' = w1" "rc = Ret AVERROR_ENOMEM" by (auto simp: send_and_drain_def)
    with w1 averror_negative(3) show ?thesis by simp
  next
    case True
    obtain ret w2 where snd: "avcodec_send_frame (Some f) w1 = (ret, w2)" by (metis prod.exhaust)
    from avcodec_send_frame_eff[OF snd] obtain s2 where
      w2: "w2 = w1\<lparr>send_frame_script := s2, trace := trace w1 @ [EvSendFrame (Some f) ret]\<rparr>"
      by blast
    show ?thesis
    proof (cases "ret < 0")
      case neg: True
      with assms al True snd have "w' = w2" "rc = Ret ret" by (auto simp: send_and_drain_def)
      with w1 w2 neg show ?thesis by simp
    next
      case nonneg: False
      with assms al True snd have "drain_packets w2 = (rc, w')" by (auto simp: send_and_drain_def)
      from drain_packets_eff[OF this] obtain evs where
        d: "encoder w' = encoder w2" "processed_frames w' = processed_frames w2"
           "trace w' = trace w2 @ evs" "list_all is_drain_event evs" by blast
      have "trace w' = trace w @ (EvSendFrame (Some f) ret # evs)" using d(3) w1 w2 by simp
      moreover note drain_events_quiet[OF d(4)]
      ultimately show ?thesis using d(1,2) w1 w2 nonneg by simp
    qed
  qed
qed

lemma pts_set_fallback_pts:
  "pts (set_fallback_pts f i) = (if pts f \<le> 0 then i else pts f)"
  by (simp add: set_fallback_pts_def)

lemma write_frame_eff:
  assumes "write_frame f i w = (rc, w')"
  shows "encoder w' = encoder w \<and> processed_frames w' = processed_frames w \<and>
     (\<exists>evs. trace w' = trace w @ evs \<and> filter_outputs evs = 0 \<and> flushed evs = 0 \<and>
            decoded evs = 0 \<and> encoded evs \<le> 1 \<and>
            (rc = Fault \<or> (\<exists>r\<ge>0. rc = Ret r) \<longrightarrow>
               encoded evs = 1 \<and> sent_pts evs = [if pts f \<le> 0 then i else pts f]))"
proof -
  define p where "p = (if pts f \<le> 0 then i else pts f)"
  have p: "pts (set_fallback_pts f i) = p"
    by (simp add: p_def pts_set_fallback_pts)
  show ?thesis
    unfolding p_def[symmetric]
  proof (cases "format (set_fallback_pts f i) \<noteq> ctx_pix_fmt (enc_ctx (encoder w))")
    case False
    with assms have "send_and_drain (set_fallback_pts f i) w = (rc, w')"
      by (simp add: write_frame_def Let_def)
    from send_and_drain_eff[OF this] show "encoder w' = encoder w \<and> processed_frames w' = processed_frames w \<and>
     (\<exists>evs. trace w' = trace w @ evs \<and> filter_outputs evs = 0 \<and> flushed evs = 0 \<and>
            decoded evs = 0 \<and> encoded evs \<le> 1 \<and>
            (rc = Fault \<or> (\<exists>r\<ge>0. rc = Ret r) \<longrightarrow>
               encoded evs = 1 \<and> sent_pts evs = [p]))" by (simp add: p)
  next
    case True
    obtain out w1 where cv: "convert_avframe_pix_fmt (set_fallback_pts f i)
        (ctx_pix_fmt (enc_ctx (encoder w))) w = (out, w1)" by (metis prod.exhaust)
    from convert_eff[OF cv] obtain s1 where w1: "w1 = w\<lparr>convert_script := s1\<rparr>" by blast
    show "encoder w' = encoder w \<and> processed_frames w' = processed_frames w \<and>
     (\<exists>evs. trace w' = trace w @ evs \<and> filter_outputs evs = 0 \<and> flushed evs = 0 \<and>
            decoded evs = 0 \<and> encoded evs \<le> 1 \<and>
            (rc = Fault \<or> (\<exists>r\<ge>0. rc = Ret r) \<longrightarrow>
               encoded evs = 1 \<and> sent_pts evs = [p]))"
    proof (cases out)
      case None
      with assms True cv have "w' = w1" "rc = Ret AVERROR_EXTERNAL"
        by (auto simp: write_frame_def Let_def)
      with w1 averror_negative(6) show ?thesis by simp
    next
      case (Some c)
      with assms True cv have "send_and_drain (c\<lparr>pts := pts (set_fallback_pts f i)\<rparr>) w1 = (rc, w')"
        by (auto simp: write_frame_def Let_def)
      from send_and_drain_eff[OF this] w1 show ?thesis by (simp add: p)
    qed
  qed
qed

lemma flush_encoder_eff:
  assumes "flush_encoder w = (rc, w')"
  shows "encoder w' = encoder w \<and> processed_frames w' = processed_frames w \<and>
     (\<exists>evs. trace w' = trace w @ evs \<and> filter_outputs evs = 0 \<and> flushed evs = 0 \<and>
            decoded evs = 0 \<and> encoded evs = 0 \<and> sent_pts evs = [])"
proof -
  obtain ok w1 where al: "av_alloc w = (ok, w1)" by (metis prod.exhaust)
  from av_alloc_eff[OF al] obtain s1 where w1: "w1 = w\<lparr>alloc_script := s1\<rparr>" by blast
  show ?thesis
  proof (cases ok)
    case False
    with assms al have "w' = w1" by (auto simp: flush_encoder_def)
    with w1 show ?thesis by simp
  next
    case True
    obtain ret w2 where snd: "avcodec_send_frame None w1 = (ret, w2)" by (metis prod.exhaust)
    from avcodec_send_frame_eff[OF snd] obtain s2 where
      w2: "w2 = w1\<lparr>send_frame_script := s2, trace := trace w1 @ [EvSendFrame None ret]\<rparr>"
      by blast
    show ?thesis
    proof (cases "ret < 0")
      case neg: True
      with assms al True snd have "w' = w2" by (auto simp: flush_encoder_def)
      with w1 w2 show ?thesis by simp
    next
      case nonneg: False
      with assms al True snd have "drain_packets w2 = (rc, w')" by (auto simp: flush_encoder_def)
      from drain_packets_eff[OF this] obtain evs where
        d: "encoder w' = encoder w2" "processed_frames w' = processed_frames w2"
           "trace w' = trace w2 @ evs" "list_all is_drain_event evs" by blast
      have "trace w' = trace w @ (EvSendFrame None ret # evs)" using d(3) w1 w2 by simp
      moreover note drain_events_quiet[OF d(4)]
      ultimately show ?thesis using d(1,2) w1 w2 by simp
    qed
  qed
qed


lemma write_frame_counts:
  assumes "write_frame f i w = (rc, w')"
  shows "encoder w' = encoder w" "processed_frames w' = processed_frames w"
    "filter_outputs (trace w') = filter_outputs (trace w)"
    "flushed (trace w') = flushed (trace w)"
    "decoded (trace w') = decoded (trace w)"
    "rc = Ret r \<Longrightarrow> 0 \<le> r \<Longrightarrow> encoded (trace w') = Suc (encoded (trace w))"
  using write_frame_eff[OF assms] by auto

lemma flush_encoder_counts:
  assumes "flush_encoder w = (rc, w')"
  shows "encoder w' = encoder w" "processed_frames w' = processed_frames w"
    "filter_outputs (trace w') = filter_outputs (trace w)"
    "flushed (trace w') = flushed (trace w)"
    "decoded (trace w') = decoded (trace w)"
    "encoded (trace w') = encoded (trace w)"
  using flush_encoder_eff[OF assms] by auto

lemma balances_cong:
  assumes "processed_frames w' = processed_frames w"
    and "filter_outputs (trace w') = filter_outputs (trace w)"
    and "flushed (trace w') = flushed (trace w)"
    and "encoded (trace w') = encoded (trace w)"
  shows "frame_balance w' = frame_balance w" "encode_balance bm w' = encode_balance bm w"
  using assms by (simp_all add: frame_balance_def encode_balance_def)

lemma submit_frame_counts:
  assumes "submit_frame f v w = (rc, w')"
  shows "encoder w' = encoder w" "processed_frames w' = processed_frames w"
    "filter_outputs (trace w') = filter_outputs (trace w)"
    "flushed (trace w') = flushed (trace w)"
    "decoded (trace w') = decoded (trace w)"
    "rc = Ret r \<Longrightarrow> 0 \<le> r \<Longrightarrow> encoded (trace w') = Suc (encoded (trace w))"
  using write_frame_counts[OF assms[unfolded submit_frame_def]] by auto

lemma count_frame_cases:
  assumes "count_frame w = (fl, w')"
  shows "(fl = Proceed \<and> w' = w\<lparr>processed_frames := processed_frames w + 1\<rparr> \<and>
          processed_frames w < INT64_MAX) \<or>
         (fl = Stop Fault \<and> w' = w \<and> INT64_MAX \<le> processed_frames w)"
  using assms by (auto simp: count_frame_def split: if_splits)

lemma process_decoded_frame_keeps:
  assumes "process_decoded_frame f v bm w = (fl, w')"
  shows "encoder w' = encoder w \<and>
         (fl = Proceed \<longrightarrow> frame_balance w' = frame_balance w \<and>
                            encode_balance bm w' = encode_balance bm w) \<and>
         (\<forall>r. fl = Stop (Ret r) \<longrightarrow> r < 0)"
proof -
  obtain ret out w1 where fp: "filter_process_frame f w = ((ret, out), w1)"
    by (metis prod.exhaust)
  from filter_process_frame_eff[OF fp] obtain s1 where
    w1: "w1 = w\<lparr>filter_script := s1, trace := trace w @ [EvFilterProcess ret out]\<rparr>" by blast
  consider (err) "ret < 0 \<and> ret \<noteq> AVERROR_EAGAIN"
    | (none) "\<not> (ret < 0 \<and> ret \<noteq> AVERROR_EAGAIN)" "\<not> (ret = 0 \<and> out \<noteq> None)"
    | (bench) "ret = 0" "out \<noteq> None" "bm"
    | (enc) "ret = 0" "out \<noteq> None" "\<not> bm"
    by (cases "ret < 0 \<and> ret \<noteq> AVERROR_EAGAIN"; cases "ret = 0 \<and> out \<noteq> None"; cases bm) auto
  then show ?thesis
  proof cases
    case err
    with assms fp have "fl = Stop (Ret ret)" "w' = w1"
      by (auto simp: process_decoded_frame_def)
    with w1 err show ?thesis by simp
  next
    case none
    with assms fp have "w' = w1" "fl = Proceed" by (auto simp: process_decoded_frame_def)
    moreover have "filter_outputs [EvFilterProcess ret out] = 0"
      using none by (cases out) auto
    ultimately show ?thesis using w1
      by (simp add: frame_balance_def encode_balance_def)
  next
    case bench
    with assms fp have "count_frame w1 = (fl, w')"
      by (auto simp: process_decoded_frame_def)
    from count_frame_cases[OF this] w1 bench show ?thesis
      by (auto simp: frame_balance_def encode_balance_def)
  next
    case enc
    obtain rc w2 where wf: "submit_frame (the out) v w1 = (rc, w2)" by (metis prod.exhaust)
    note c = submit_frame_counts[OF wf]
    show ?thesis
    proof (cases rc)
      case Fault
      with assms fp enc wf have "fl = Stop Fault" "w' = w2"
        by (auto simp: process_decoded_frame_def)
      with c(1) w1 show ?thesis by simp
    next
      case (Ret r)
      show ?thesis
      proof (cases "r < 0")
        case True
        with assms fp enc wf Ret have "fl = Stop (Ret r)" "w' = w2"
          by (auto simp: process_decoded_frame_def)
        with c(1) w1 True show ?thesis by simp
      next
        case False
        with assms fp enc wf Ret have cf: "count_frame w2 = (fl, w')"
          by (auto simp: process_decoded_frame_def)
        from c(6)[OF Ret] False have e: "encoded (trace w2) = Suc (encoded (trace w1))" by simp
        from count_frame_cases[OF cf] c(1-4) e w1 enc show ?thesis
          by (auto simp: frame_balance_def encode_balance_def)
      qed
    qed
  qed
qed

lemma receive_loop_keeps:
  "receive_loop n v bm w = Some (fl, w') \<Longrightarrow>
     encoder w' = encoder w \<and>
     (fl = Proceed \<longrightarrow> frame_balance w' = frame_balance w \<and>
                        encode_balance bm w' = encode_balance bm w) \<and>
     (\<forall>r. fl = Stop (Ret r) \<longrightarrow> r < 0)"
proof (induction n arbitrary: w)
  case 0
  then show ?case by simp
next
  case (Suc n)
  let ?w1 = "w\<lparr>abort_reads := Suc (abort_reads w)\<rparr>"
  let ?w2 = "?w1\<lparr>pause_reads := Suc (pause_reads w)\<rparr>"
  show ?case
  proof (cases "abort_obs w (abort_reads w)")
    case True
    with Suc.prems have "w' = ?w1" "fl = Proceed" by (simp_all add: poll_abort_def)
    then show ?thesis by (simp add: frame_balance_def encode_balance_def)
  next
    case na: False
    show ?thesis
    proof (cases "pause_obs w (pause_reads w)")
      case True
      with Suc.prems na have "receive_loop n v bm (sleep_for 100 ?w2) = Some (fl, w')"
        by (simp add: poll_abort_def poll_pause_def)
      from Suc.IH[OF this] show ?thesis
        by (simp add: sleep_for_def frame_balance_def encode_balance_def)
    next
      case np: False
      obtain ret f w3 where rf: "avcodec_receive_frame ?w2 = ((ret, f), w3)"
        by (metis prod.exhaust)
      from avcodec_receive_frame_eff[OF rf] obtain s3 where
        w3: "w3 = ?w2\<lparr>receive_frame_script := s3, trace := trace ?w2 @ [EvReceiveFrame ret]\<rparr>"
        by blast
      have k3: "encoder w3 = encoder w" "frame_balance w3 = frame_balance w"
        "encode_balance bm w3 = encode_balance bm w"
        using w3 by (simp_all add: frame_balance_def encode_balance_def)
      show ?thesis
      proof (cases "ret = AVERROR_EAGAIN \<or> ret = AVERROR_EOF \<or> ret < 0")
        case True
        with Suc.prems na np rf have "w' = w3" "fl = Proceed \<or> (fl = Stop (Ret ret) \<and> ret < 0)"
          by (auto simp: poll_abort_def poll_pause_def split: if_splits)
        with k3 show ?thesis by auto
      next
        case False
        obtain fl4 w4 where pd: "process_decoded_frame f v bm w3 = (fl4, w4)"
          by (metis prod.exhaust)
        note k4 = process_decoded_frame_keeps[OF pd]
        show ?thesis
        proof (cases fl4)
          case (Stop r)
          with Suc.prems na np rf False pd have "fl = Stop r" "w' = w4"
            by (auto simp: poll_abort_def poll_pause_def)
          with k4 k3 Stop show ?thesis by auto
        next
          case Proceed
          with Suc.prems na np rf False pd have "receive_loop n v bm w4 = Some (fl, w')"
            by (auto simp: poll_abort_def poll_pause_def)
          from Suc.IH[OF this] k4 k3 Proceed show ?thesis by simp
        qed
      qed
    qed
  qed
qed


lemma passthrough_cases:
  assumes "passthrough cfg pkt w = Some (fl, w')"
  shows "(fl = Stop Fault \<and> w' = w) \<or>
         (\<exists>p r s. w' = w\<lparr>mux_script := s, trace := trace w @ [EvMuxWrite p r]\<rparr> \<and>
                  (if r < 0 then fl = Stop (Ret r) else fl = Proceed))"
proof (cases "copy_streams cfg")
  case False
  with assms show ?thesis by (simp add: passthrough_def)
next
  case True
  show ?thesis
  proof (cases "stream_map_at (stream_map (encoder w)) (stream_index pkt)")
    case None
    with assms True show ?thesis by (simp add: passthrough_def)
  next
    case (Some oi)
    show ?thesis
    proof (cases "nth_opt (ifmt_streams w) (stream_index pkt)")
      case None
      with assms True Some show ?thesis by (simp add: passthrough_def split: if_splits)
    next
      case ins: (Some in_stream)
      show ?thesis
      proof (cases "nth_opt (ofmt_streams (encoder w)) oi")
        case None
        with assms True Some ins show ?thesis by (simp add: passthrough_def split: if_splits)
      next
        case outs: (Some out_stream)
        let ?p = "(rescale_ts w pkt (time_base in_stream) (time_base out_stream))\<lparr>stream_index := oi\<rparr>"
        obtain r w1 where mx: "av_interleaved_write_frame ?p w = (r, w1)" by (metis prod.exhaust)
        from av_interleaved_write_frame_eff[OF mx] obtain s1 where
          w1: "w1 = w\<lparr>mux_script := s1, trace := trace w @ [EvMuxWrite ?p r]\<rparr>" by blast
        from assms True Some ins outs mx have "w' = w1" "if r < 0 then fl = Stop (Ret r) else fl = Proceed"
          by (auto simp: passthrough_def split: if_splits)
        with w1 show ?thesis by blast
      qed
    qed
  qed
qed

lemma passthrough_keeps:
  assumes "passthrough cfg pkt w = Some (fl, w')"
  shows "encoder w' = encoder w \<and> frame_balance w' = frame_balance w \<and>
         encode_balance bm w' = encode_balance bm w \<and> (\<forall>r. fl = Stop (Ret r) \<longrightarrow> r < 0)"
proof -
  from passthrough_cases[OF assms] consider
    (fault) "fl = Stop Fault" "w' = w"
    | (mux) p r s where "w' = w\<lparr>mux_script := s, trace := trace w @ [EvMuxWrite p r]\<rparr>"
        "if r < 0 then fl = Stop (Ret r) else fl = Proceed"
    by blast
  then show ?thesis
  proof cases
    case fault
    then show ?thesis by simp
  next
    case mux
    have "encoder w' = encoder w" "frame_balance w' = frame_balance w"
      "encode_balance bm w' = encode_balance bm w"
      using mux(1) by (auto intro!: balances_cong)
    moreover have "\<forall>x. fl = Stop (Ret x) \<longrightarrow> x < 0"
      using mux(2) by (auto split: if_splits)
    ultimately show ?thesis by simp
  qed
qed

lemma read_loop_keeps:
  "read_loop n cfg v bm w = Some (fl, w') \<Longrightarrow>
     encoder w' = encoder w \<and>
     (fl = Proceed \<longrightarrow> frame_balance w' = frame_balance w \<and>
                        encode_balance bm w' = encode_balance bm w) \<and>
     (\<forall>r. fl = Stop (Ret r) \<longrightarrow> r < 0)"
proof (induction n arbitrary: w)
  case 0
  then show ?case by simp
next
  case (Suc n)
  let ?w1 = "w\<lparr>abort_reads := Suc (abort_reads w)\<rparr>"
  show ?case
  proof (cases "abort_obs w (abort_reads w)")
    case True
    with Suc.prems have "w' = ?w1" "fl = Proceed" by (simp_all add: poll_abort_def)
    then show ?thesis by (simp add: frame_balance_def encode_balance_def)
  next
    case na: False
    obtain ret pkt w2 where rd: "av_read_frame ?w1 = ((ret, pkt), w2)" by (metis prod.exhaust)
    from av_read_frame_eff[OF rd] obtain s2 where
      w2: "w2 = ?w1\<lparr>read_script := s2, trace := trace ?w1 @ [EvReadFrame ret]\<rparr>" by blast
    have k2: "encoder w2 = encoder w" "frame_balance w2 = frame_balance w"
      "encode_balance bm w2 = encode_balance bm w"
      using w2 by (simp_all add: frame_balance_def encode_balance_def)
    show ?thesis
    proof (cases "ret < 0")
      case True
      with Suc.prems na rd have "w' = w2" "fl = Proceed \<or> fl = Stop (Ret ret)"
        by (auto simp: poll_abort_def split: if_splits)
      with k2 True show ?thesis by auto
    next
      case nonneg: False
      show ?thesis
      proof (cases "stream_index pkt = v")
        case True
        obtain r3 w3 where sp: "avcodec_send_packet pkt w2 = (r3, w3)" by (metis prod.exhaust)
        from avcodec_send_packet_eff[OF sp] obtain s3 where
          w3: "w3 = w2\<lparr>send_packet_script := s3, trace := trace w2 @ [EvSendPacket r3]\<rparr>" by blast
        have "encoder w3 = encoder w2" "frame_balance w3 = frame_balance w2"
          "encode_balance bm w3 = encode_balance bm w2"
          using w3 by (auto intro!: balances_cong)
        with k2 have k3: "encoder w3 = encoder w" "frame_balance w3 = frame_balance w"
          "encode_balance bm w3 = encode_balance bm w" by simp_all
        show ?thesis
        proof (cases "r3 < 0")
          case neg: True
          with Suc.prems na rd nonneg True sp have "w' = w3" "fl = Stop (Ret r3)"
            by (auto simp: poll_abort_def)
          with k3 neg show ?thesis by simp
        next
          case ok: False
          with Suc.prems na rd nonneg True sp obtain fl4 w4 where
            rl: "receive_loop n v bm w3 = Some (fl4, w4)"
            by (auto simp: poll_abort_def split: option.splits)
          note k4 = receive_loop_keeps[OF rl]
          show ?thesis
          proof (cases fl4)
            case (Stop r)
            with Suc.prems na rd nonneg True sp ok rl have "w' = w4" "fl = Stop r"
              by (auto simp: poll_abort_def)
            with k4 k3 Stop show ?thesis by simp
          next
            case Proceed
            with Suc.prems na rd nonneg True sp ok rl have
              "read_loop n cfg v bm w4 = Some (fl, w')"
              by (auto simp: poll_abort_def)
            from Suc.IH[OF this] k4 k3 Proceed show ?thesis by simp
          qed
        qed
      next
        case other: False
        show ?thesis
        proof (cases "passthrough cfg pkt w2")
          case None
          with Suc.prems na rd nonneg other have "read_loop n cfg v bm w2 = Some (fl, w')"
            by (auto simp: poll_abort_def)
          from Suc.IH[OF this] k2 show ?thesis by simp
        next
          case (Some res)
          obtain fl3 w3 where res: "res = (fl3, w3)" by (cases res)
          note k3 = passthrough_keeps[OF Some[unfolded res], of bm]
          show ?thesis
          proof (cases fl3)
            case (Stop r)
            with Suc.prems na rd nonneg other Some res have "w' = w3" "fl = Stop r"
              by (auto simp: poll_abort_def)
            with k3 k2 Stop show ?thesis by simp
          next
            case Proceed
            with Suc.prems na rd nonneg other Some res have
              "read_loop n cfg v bm w3 = Some (fl, w')"
              by (auto simp: poll_abort_def)
            from Suc.IH[OF this] k3 k2 show ?thesis by simp
          qed
        qed
      qed
    qed
  qed
qed

lemma write_flushed_keeps:
  "write_flushed v fs w = (fl, w') \<Longrightarrow>
     encoder w' = encoder w \<and>
     (fl = Proceed \<longrightarrow>
        processed_frames w' = processed_frames w + int (length fs) \<and>
        encoded (trace w') = encoded (trace w) + length fs \<and>
        filter_outputs (trace w') = filter_outputs (trace w) \<and>
        flushed (trace w') = flushed (trace w)) \<and>
     (\<forall>r. fl = Stop (Ret r) \<longrightarrow> r < 0)"
proof (induction fs arbitrary: w)
  case Nil
  then show ?case by simp
next
  case (Cons f fs)
  obtain rc w1 where wf: "submit_frame f v w = (rc, w1)" by (metis prod.exhaust)
  note c = submit_frame_counts[OF wf]
  show ?case
  proof (cases rc)
    case Fault
    with Cons.prems wf have "fl = Stop Fault" "w' = w1" by auto
    with c(1) show ?thesis by simp
  next
    case (Ret r)
    show ?thesis
    proof (cases "r < 0")
      case True
      with Cons.prems wf Ret have "fl = Stop (Ret r)" "w' = w1" by auto
      with c(1) True show ?thesis by simp
    next
      case False
      obtain fl2 w2 where cf: "count_frame w1 = (fl2, w2)" by (metis prod.exhaust)
      from count_frame_cases[OF cf] show ?thesis
      proof
        assume p: "fl2 = Proceed \<and> w2 = w1\<lparr>processed_frames := processed_frames w1 + 1\<rparr> \<and>
                   processed_frames w1 < INT64_MAX"
        with Cons.prems wf Ret False cf have "write_flushed v fs w2 = (fl, w')" by auto
        from Cons.IH[OF this] p c(1-4) c(6)[OF Ret] False show ?thesis by simp
      next
        assume p: "fl2 = Stop Fault \<and> w2 = w1 \<and> INT64_MAX \<le> processed_frames w1"
        with Cons.prems wf Ret False cf have "fl = Stop Fault" "w' = w1" by auto
        with c(1) show ?thesis by simp
      qed
    qed
  qed
qed

lemma flush_sequence_keeps:
  assumes "flush_sequence v w = (rc, w')"
  shows "encoder w' = encoder w \<and>
         (\<forall>r\<ge>0. rc = Ret r \<longrightarrow> frame_balance w' = frame_balance w \<and>
                              encode_balance bm w' = encode_balance bm w)"
proof -
  obtain ret fs w1 where ff: "filter_flush w = ((ret, fs), w1)" by (metis prod.exhaust)
  from filter_flush_eff[OF ff] obtain s1 where
    w1: "w1 = w\<lparr>flush_script := s1, trace := trace w @ [EvFilterFlush ret fs]\<rparr>" by blast
  show ?thesis
  proof (cases "ret < 0")
    case True
    with assms ff have "w' = w1" "rc = Ret ret" by (auto simp: flush_sequence_def)
    with w1 True show ?thesis by simp
  next
    case ok: False
    obtain fl2 w2 where wfl: "write_flushed v fs w1 = (fl2, w2)" by (metis prod.exhaust)
    note k2 = write_flushed_keeps[OF wfl]
    show ?thesis
    proof (cases fl2)
      case (Stop r)
      with assms ff ok wfl have "w' = w2" "rc = r" by (auto simp: flush_sequence_def)
      with k2 w1 Stop show ?thesis by auto
    next
      case Proceed
      with assms ff ok wfl have fe: "flush_encoder w2 = (rc, w')"
        by (auto simp: flush_sequence_def)
      note c = flush_encoder_counts[OF fe]
      from k2 Proceed c w1 ok show ?thesis
        by (simp add: frame_balance_def encode_balance_def)
    qed
  qed
qed

lemma process_frames_keeps:
  assumes "process_frames n pr cfg v bm w = Some (rc, w')"
  shows "encoder w' = encoder w \<and>
         (\<forall>r\<ge>0. rc = Ret r \<longrightarrow> frame_balance w' = frame_balance w \<and>
                              encode_balance bm w' = encode_balance bm w)"
proof (cases "cap_opened pr")
  case False
  with assms show ?thesis by (simp add: process_frames_def)
next
  case True
  let ?w0 = "w\<lparr>total_frames := cap_frame_count pr, start_time := time_now pr\<rparr>"
  obtain ok1 w1 where a1: "av_alloc ?w0 = (ok1, w1)" by (metis prod.exhaust)
  from av_alloc_eff[OF a1] obtain s1 where w1: "w1 = ?w0\<lparr>alloc_script := s1\<rparr>" by blast
  show ?thesis
  proof (cases ok1)
    case False
    with assms True a1 have "rc = Ret AVERROR_ENOMEM" "w' = w1"
      by (simp_all add: process_frames_def)
    with w1 averror_negative(3) show ?thesis by simp
  next
    case ok1: True
    obtain ok2 w2 where a2: "av_alloc w1 = (ok2, w2)" by (metis prod.exhaust)
    from av_alloc_eff[OF a2] obtain s2 where w2: "w2 = w1\<lparr>alloc_script := s2\<rparr>" by blast
    have k2: "encoder w2 = encoder w" "frame_balance w2 = frame_balance w"
      "encode_balance bm w2 = encode_balance bm w"
      using w1 w2 by (auto intro!: balances_cong)
    show ?thesis
    proof (cases ok2)
      case False
      with assms True a1 ok1 a2 have "rc = Ret AVERROR_ENOMEM" "w' = w2"
        by (simp_all add: process_frames_def)
      with k2 averror_negative(3) show ?thesis by simp
    next
      case ok2: True
      with assms True a1 ok1 a2 have raf: "read_and_flush n cfg v bm w2 = Some (rc, w')"
        by (simp add: process_frames_def)
      then obtain fl3 w3 where rl: "read_loop n cfg v bm w2 = Some (fl3, w3)"
        by (auto simp: read_and_flush_def split: option.splits)
      note k3 = read_loop_keeps[OF rl]
      show ?thesis
      proof (cases fl3)
        case (Stop r)
        with raf rl have "rc = r" "w' = w3" by (auto simp: read_and_flush_def)
        with k3 k2 Stop show ?thesis by auto
      next
        case Proceed
        with raf rl have "flush_sequence v w3 = (rc, w')" by (auto simp: read_and_flush_def)
        from flush_sequence_keeps[OF this, of bm] k3 k2 Proceed show ?thesis by simp
      qed
    qed
  qed
qed


section \<open>Evaluating runs\<close>

lemmas run_defs =
  process_frames_def read_and_flush_def flush_sequence_def process_decoded_frame_def
  passthrough_def write_frame_def send_and_drain_def flush_encoder_def set_fallback_pts_def
  poll_abort_def poll_pause_def sleep_for_def av_alloc_def av_read_frame_def
  avcodec_send_packet_def avcodec_receive_frame_def filter_process_frame_def filter_flush_def
  convert_avframe_pix_fmt_def avcodec_send_frame_def avcodec_receive_packet_def
  av_interleaved_write_frame_def nth_opt_def stream_map_at_def drain_packets.simps
  submit_frame_def count_frame_def

lemmas example_defs =
  idle_world_def example_encoder_def example_dec_ctx_def example_probe_def video_stream_def
  audio_stream_def data_stream_def video_packet_def audio_packet_def frame_without_pts_def
  plain_config_def copy_config_def blank_frame_def blank_packet_def
  AVERROR_EOF_def AVERROR_EAGAIN_def AVERROR_ENOMEM_def AVERROR_EXTERNAL_def AV_PIX_FMT_NONE_def
  INT64_MAX_def

section \<open>The stream map during a run\<close>

text \<open>
  Claim C4, amended: the map exists only when \<^verbatim>\<open>copy_streams\<close> is set. After a
  successful \<open>init\<close> with \<^verbatim>\<open>copy_streams\<close> set and a designated video stream
  \<open>v\<close> among the input streams, the entry for \<open>v\<close> is the output video stream index.
  The entries are written by \<open>init\<close>, which runs before \<^verbatim>\<open>process_frames\<close>; a run of
  \<^verbatim>\<open>process_frames\<close>, however it ends, leaves the encoder object and with it every
  entry of the map as it found them (the lemmas \<open>receive_loop_keeps\<close>,
  \<open>read_loop_keeps\<close>, \<open>flush_sequence_keeps\<close> say the same of each part of the run).
\<close>

theorem stream_map_fixed_after_init:
  assumes ok: "init env (ifmt_streams w) dec cfg v e0 = (0, encoder w)"
    and copy: "copy_streams cfg"
    and v: "0 \<le> v" "v < int (length (ifmt_streams w))"
    and run: "process_frames n pr cfg v bm w = Some (rc, w')"
  shows "stream_map_at (stream_map (encoder w)) v = Some (out_vstream_idx (encoder w)) \<and>
         (\<forall>i. stream_map_at (stream_map (encoder w')) i = stream_map_at (stream_map (encoder w)) i)"
proof -
  from init_success_copy[OF ok copy] obtain e1 where
    ms: "map_streams env v 0 (ifmt_streams w) e1 = (None, encoder w)" and
    sm: "stream_map e1 = Some (replicate (length (ifmt_streams w)) (uninit_int env))"
    by blast
  from map_streams_frame[OF ms sm] obtain m' where
    m': "stream_map (encoder w) = Some m'" "length m' = length (ifmt_streams w)" by auto
  have k: "nat v < length (ifmt_streams w)" using v by simp
  from map_streams_entry[OF ms sm _ k] v m' have "m' ! nat v = out_vstream_idx e1" by simp
  moreover have "out_vstream_idx (encoder w) = out_vstream_idx e1"
    using map_streams_ofmt[OF ms] by simp
  ultimately have "stream_map_at (stream_map (encoder w)) v = Some (out_vstream_idx (encoder w))"
    using m' v by (simp add: stream_map_at_def nth_opt_def)
  moreover have "encoder w' = encoder w"
    using process_frames_keeps[OF run] by simp
  ultimately show ?thesis by simp
qed

lemma copy_init:
  "init example_init_env (ifmt_streams copy_world) example_dec_ctx copy_config 0 Encoder_new =
     (0, encoder copy_world)"
  by (simp add: copy_world_def copy_encoder_def example_init)

lemma copy_world_run:
  "process_frames 3 example_probe copy_config 0 False copy_world \<noteq> None"
  by (simp add: copy_world_def copy_encoder_def copied_stream_def run_defs example_defs
      eval_nat_numeral)

theorem stream_map_fixed_after_init_witness:
  "stream_map_at
     (stream_map (encoder (snd (the (process_frames 3 example_probe copy_config 0 False copy_world)))))
     1 = Some 1 \<and>
   stream_map_at (stream_map (encoder copy_world)) 0 = Some 0"
proof -
  from copy_world_run obtain rc w' where
    run: "process_frames 3 example_probe copy_config 0 False copy_world = Some (rc, w')" by auto
  have c: "copy_streams copy_config" by (simp add: copy_config_def)
  have v: "(0::int) \<le> 0" "0 < int (length (ifmt_streams copy_world))"
    by (simp_all add: copy_world_def)
  from stream_map_fixed_after_init[OF copy_init c v run] show ?thesis
    by (simp add: run) (simp add: copy_world_def copy_encoder_def stream_map_at_def nth_opt_def)
qed

text \<open>
  Claim C4 as stated fails for a run without stream copying: \<open>init\<close> succeeds and leaves
  the map null, so there is no entry for the video stream.
\<close>

theorem stream_map_absent_without_copy_counterexample:
  "fst (init example_init_env [video_stream, audio_stream] example_dec_ctx plain_config 0 Encoder_new) = 0 \<and>
   stream_map_at
     (stream_map (snd (init example_init_env [video_stream, audio_stream] example_dec_ctx
        plain_config 0 Encoder_new))) 0 \<noteq>
   Some (out_vstream_idx (snd (init example_init_env [video_stream, audio_stream] example_dec_ctx
        plain_config 0 Encoder_new)))"
  by (simp add: init_def init_video_stream_def example_init_env_def example_defs Encoder_new_def
      Let_def stream_map_at_def)

text \<open>
  Claim C9. Without \<^verbatim>\<open>copy_streams\<close>, \<open>init\<close> leaves the stream map null; the
  passthrough branch is not taken and, the conjunction being short-circuit, does not read
  the map (it does not fault on the null map); and an iteration of the read loop that
  meets a packet of another stream only consumes that packet: apart from the poll of
  \<^verbatim>\<open>abort\<close> and the read itself the world is unchanged.
\<close>

theorem null_stream_map_never_read:
  assumes "\<not> copy_streams cfg"
  shows "stream_map (snd (init env ins dec cfg v Encoder_new)) = None \<and>
         passthrough cfg pkt w = None \<and>
         (\<not> abort_obs w (abort_reads w) \<and> read_script w = (ret, pkt) # rest \<and> 0 \<le> ret \<and>
          stream_index pkt \<noteq> v \<longrightarrow>
            read_loop (Suc n) cfg v bm w =
            read_loop n cfg v bm
              (w\<lparr>abort_reads := Suc (abort_reads w), read_script := rest,
                 trace := trace w @ [EvReadFrame ret]\<rparr>))"
proof -
  have a: "stream_map (snd (init env ins dec cfg v Encoder_new)) = None"
    using init_no_copy[OF assms] by (simp add: Encoder_new_def)
  have b: "passthrough cfg p x = None" for p x
    using assms by (simp add: passthrough_def)
  have c: "read_loop (Suc n) cfg v bm w =
            read_loop n cfg v bm
              (w\<lparr>abort_reads := Suc (abort_reads w), read_script := rest,
                 trace := trace w @ [EvReadFrame ret]\<rparr>)"
    if "\<not> abort_obs w (abort_reads w)" "read_script w = (ret, pkt) # rest" "0 \<le> ret"
       "stream_index pkt \<noteq> v"
    using that by (simp add: poll_abort_def av_read_frame_def b)
  from a b c show ?thesis by blast
qed

theorem null_stream_map_never_read_witness:
  "read_loop 2 plain_config 0 False audio_only_world =
     Some (Proceed, audio_only_world\<lparr>abort_reads := 2, read_script := [],
              trace := [EvReadFrame 0, EvReadFrame AVERROR_EOF]\<rparr>) \<and>
   stream_map (encoder audio_only_world) = None"
proof -
  have nc: "\<not> copy_streams plain_config" by (simp add: plain_config_def)
  have pre: "\<not> abort_obs audio_only_world (abort_reads audio_only_world) \<and>
      read_script audio_only_world = (0, audio_packet) # [] \<and> (0::int) \<le> 0 \<and>
      stream_index audio_packet \<noteq> 0"
    by (simp add: audio_only_world_def example_defs)
  from null_stream_map_never_read[OF nc, where pkt = audio_packet and w = audio_only_world
      and ret = 0 and rest = "[]" and v = 0 and n = "Suc 0" and bm = False] pre
  have "read_loop (Suc (Suc 0)) plain_config 0 False audio_only_world =
        read_loop (Suc 0) plain_config 0 False
          (audio_only_world\<lparr>abort_reads := Suc (abort_reads audio_only_world), read_script := [],
             trace := trace audio_only_world @ [EvReadFrame 0]\<rparr>)"
    by blast
  then show ?thesis
    by (simp add: eval_nat_numeral audio_only_world_def run_defs example_defs)
qed

section \<open>Pause and abort\<close>

text \<open>
  Claim C8. In the inner receive loop, as long as the polls see \<^verbatim>\<open>abort\<close> clear and
  \<^verbatim>\<open>pause\<close> set, each iteration does nothing but sleep 100 milliseconds: after \<open>k\<close>
  such polls the loop stands where it stood, with \<open>k\<close> sleeps in the log and no call to
  the decoder, the filter or the encoder. What it does next is decided by the next poll.
\<close>

theorem pause_suspends_receive_loop:
  assumes "\<forall>i<k. \<not> abort_obs w (abort_reads w + i)"
    and "\<forall>i<k. pause_obs w (pause_reads w + i)"
  shows "receive_loop (k + n) v bm w =
         receive_loop n v bm
           (w\<lparr>abort_reads := abort_reads w + k, pause_reads := pause_reads w + k,
              trace := trace w @ replicate k (EvSleep 100)\<rparr>)"
  using assms
proof (induction k arbitrary: w)
  case 0
  then show ?case by simp
next
  case (Suc k)
  let ?w = "sleep_for 100 (w\<lparr>abort_reads := Suc (abort_reads w), pause_reads := Suc (pause_reads w)\<rparr>)"
  from Suc.prems have now: "\<not> abort_obs w (abort_reads w)" "pause_obs w (pause_reads w)"
    by (metis add.right_neutral zero_less_Suc)+
  have later: "\<forall>i<k. \<not> abort_obs ?w (abort_reads ?w + i)" "\<forall>i<k. pause_obs ?w (pause_reads ?w + i)"
    using Suc.prems by (auto simp: sleep_for_def)
  have "receive_loop (Suc k + n) v bm w = receive_loop (k + n) v bm ?w"
    using now by (simp add: poll_abort_def poll_pause_def)
  also have "\<dots> = receive_loop n v bm
           (?w\<lparr>abort_reads := abort_reads ?w + k, pause_reads := pause_reads ?w + k,
              trace := trace ?w @ replicate k (EvSleep 100)\<rparr>)"
    by (rule Suc.IH[OF later])
  also have "?w\<lparr>abort_reads := abort_reads ?w + k, pause_reads := pause_reads ?w + k,
              trace := trace ?w @ replicate k (EvSleep 100)\<rparr> =
            w\<lparr>abort_reads := abort_reads w + Suc k, pause_reads := pause_reads w + Suc k,
              trace := trace w @ replicate (Suc k) (EvSleep 100)\<rparr>"
    by (simp add: sleep_for_def)
  finally show ?case .
qed

theorem pause_suspends_receive_loop_witness:
  "receive_loop 3 0 False paused_world =
     Some (Proceed, paused_world\<lparr>abort_reads := 3, pause_reads := 3,
             trace := [EvSleep 100, EvSleep 100, EvReceiveFrame AVERROR_EAGAIN]\<rparr>)"
proof -
  have a: "\<forall>i<2. \<not> abort_obs paused_world (abort_reads paused_world + i)"
    by (simp add: paused_world_def idle_world_def)
  have b: "\<forall>i<2. pause_obs paused_world (pause_reads paused_world + i)"
    by (simp add: paused_world_def idle_world_def)
  from pause_suspends_receive_loop[OF a b, of 1 0 False] show ?thesis
    by (simp add: eval_nat_numeral paused_world_def run_defs example_defs)
qed


text \<open>
  Claim C2, amended. When a poll of \<^verbatim>\<open>abort\<close> sees the flag set, the loop that
  polled ends at once: the inner loop hands control back to the read loop, the read loop
  ends without reading a packet, and neither makes a decoder, filter or encoder call. The
  rest of \<^verbatim>\<open>process_frames\<close> is then the same drain as at the end of the input:
  filter flush, submission of every flushed frame, encoder flush.
\<close>

theorem abort_ends_loops_then_drains:
  assumes "abort_obs w (abort_reads w)"
  shows "receive_loop (Suc n) v bm w = Some (Proceed, w\<lparr>abort_reads := Suc (abort_reads w)\<rparr>) \<and>
         read_loop (Suc n) cfg v bm w = Some (Proceed, w\<lparr>abort_reads := Suc (abort_reads w)\<rparr>) \<and>
         read_and_flush (Suc n) cfg v bm w =
           Some (flush_sequence v (w\<lparr>abort_reads := Suc (abort_reads w)\<rparr>))"
  using assms by (simp add: read_and_flush_def poll_abort_def)

theorem abort_ends_loops_then_drains_witness:
  "read_and_flush 1 plain_config 0 False aborted_world =
     Some (Ret 0,
           aborted_world
             \<lparr>abort_reads := 1, flush_script := [], processed_frames := 1,
              trace := [EvFilterFlush 0 [frame_without_pts],
                        EvSendFrame (Some frame_without_pts) 0,
                        EvReceivePacket AVERROR_EAGAIN,
                        EvSendFrame None 0,
                        EvReceivePacket AVERROR_EAGAIN]\<rparr>)"
proof -
  have a: "abort_obs aborted_world (abort_reads aborted_world)"
    by (simp add: aborted_world_def idle_world_def)
  from abort_ends_loops_then_drains[OF a, where n = 0 and v = 0 and bm = False
      and cfg = plain_config] show ?thesis
    by (simp add: aborted_world_def run_defs example_defs)
qed

text \<open>
  Claim C2 as stated fails: with \<^verbatim>\<open>abort\<close> set from the first poll on, the run still
  flushes the filter, submits the flushed frame and flushes the encoder.
\<close>

theorem abort_still_drains_counterexample:
  "fst (the (process_frames 1 example_probe plain_config 0 False aborted_world)) = Ret 0 \<and>
   abort_obs aborted_world 0 \<and>
   trace (snd (the (process_frames 1 example_probe plain_config 0 False aborted_world))) =
     [EvFilterFlush 0 [frame_without_pts],
      EvSendFrame (Some frame_without_pts) 0,
      EvReceivePacket AVERROR_EAGAIN,
      EvSendFrame None 0,
      EvReceivePacket AVERROR_EAGAIN]"
  by (simp add: aborted_world_def run_defs example_defs)

section \<open>The frame counter\<close>

text \<open>
  The counter stays within the range of an \<^verbatim>\<open>int64_t\<close>: it changes in
  \<open>count_frame\<close> only, which stops at \<open>INT64_MAX\<close>.
\<close>

lemma count_frame_in_range:
  "count_frame w = (fl, w') \<Longrightarrow> processed_frames w \<le> INT64_MAX \<Longrightarrow>
     processed_frames w' \<le> INT64_MAX"
  by (auto dest!: count_frame_cases)

lemma process_decoded_frame_in_range:
  assumes "process_decoded_frame f v bm w = (fl, w')" and "processed_frames w \<le> INT64_MAX"
  shows "processed_frames w' \<le> INT64_MAX"
proof -
  obtain ret out w1 where fp: "filter_process_frame f w = ((ret, out), w1)"
    by (metis prod.exhaust)
  from filter_process_frame_eff[OF fp] assms(2) have r1: "processed_frames w1 \<le> INT64_MAX"
    by auto
  obtain rc w2 where sf: "submit_frame (the out) v w1 = (rc, w2)" by (metis prod.exhaust)
  from submit_frame_counts(2)[OF sf] r1 have r2: "processed_frames w2 \<le> INT64_MAX" by simp
  obtain fla wa where ca: "count_frame w1 = (fla, wa)" by (metis prod.exhaust)
  obtain flb wb where cb: "count_frame w2 = (flb, wb)" by (metis prod.exhaust)
  from assms(1) fp sf ca cb have "w' = w1 \<or> w' = w2 \<or> w' = wa \<or> w' = wb"
    by (auto simp: process_decoded_frame_def split: if_splits rc.splits)
  with count_frame_in_range[OF ca r1] count_frame_in_range[OF cb r2] r1 r2 show ?thesis
    by auto
qed

lemma receive_loop_in_range:
  "receive_loop n v bm w = Some (fl, w') \<Longrightarrow> processed_frames w \<le> INT64_MAX \<Longrightarrow>
     processed_frames w' \<le> INT64_MAX"
proof (induction n arbitrary: w)
  case 0
  then show ?case by simp
next
  case (Suc n)
  let ?w1 = "w\<lparr>abort_reads := Suc (abort_reads w)\<rparr>"
  let ?w2 = "?w1\<lparr>pause_reads := Suc (pause_reads w)\<rparr>"
  show ?case
  proof (cases "abort_obs w (abort_reads w)")
    case True
    with Suc.prems(1) have "w' = ?w1" by (simp add: poll_abort_def)
    with Suc.prems(2) show ?thesis by simp
  next
    case na: False
    show ?thesis
    proof (cases "pause_obs w (pause_reads w)")
      case True
      with Suc.prems(1) na have "receive_loop n v bm (sleep_for 100 ?w2) = Some (fl, w')"
        by (simp add: poll_abort_def poll_pause_def)
      from Suc.IH[OF this] Suc.prems(2) show ?thesis by (simp add: sleep_for_def)
    next
      case np: False
      obtain ret f w3 where rf: "avcodec_receive_frame ?w2 = ((ret, f), w3)"
        by (metis prod.exhaust)
      from avcodec_receive_frame_eff[OF rf] Suc.prems(2) have
        r3: "processed_frames w3 \<le> INT64_MAX" by auto
      show ?thesis
      proof (cases "ret = AVERROR_EAGAIN \<or> ret = AVERROR_EOF \<or> ret < 0")
        case True
        with Suc.prems(1) na np rf have "w' = w3"
          by (auto simp: poll_abort_def poll_pause_def split: if_splits)
        with r3 show ?thesis by simp
      next
        case False
        obtain fl4 w4 where pd: "process_decoded_frame f v bm w3 = (fl4, w4)"
          by (metis prod.exhaust)
        note r4 = process_decoded_frame_in_range[OF pd r3]
        show ?thesis
        proof (cases fl4)
          case (Stop r)
          with Suc.prems(1) na np rf False pd have "w' = w4"
            by (auto simp: poll_abort_def poll_pause_def)
          with r4 show ?thesis by simp
        next
          case Proceed
          with Suc.prems(1) na np rf False pd have "receive_loop n v bm w4 = Some (fl, w')"
            by (auto simp: poll_abort_def poll_pause_def)
          from Suc.IH[OF this r4] show ?thesis .
        qed
      qed
    qed
  qed
qed

lemma passthrough_in_range:
  "passthrough cfg pkt w = Some (fl, w') \<Longrightarrow> processed_frames w' = processed_frames w"
  by (auto dest!: passthrough_cases)

lemma read_loop_in_range:
  "read_loop n cfg v bm w = Some (fl, w') \<Longrightarrow> processed_frames w \<le> INT64_MAX \<Longrightarrow>
     processed_frames w' \<le> INT64_MAX"
proof (induction n arbitrary: w)
  case 0
  then show ?case by simp
next
  case (Suc n)
  let ?w1 = "w\<lparr>abort_reads := Suc (abort_reads w)\<rparr>"
  show ?case
  proof (cases "abort_obs w (abort_reads w)")
    case True
    with Suc.prems(1) have "w' = ?w1" by (simp add: poll_abort_def)
    with Suc.prems(2) show ?thesis by simp
  next
    case na: False
    obtain ret pkt w2 where rd: "av_read_frame ?w1 = ((ret, pkt), w2)" by (metis prod.exhaust)
    from av_read_frame_eff[OF rd] Suc.prems(2) have r2: "processed_frames w2 \<le> INT64_MAX"
      by auto
    show ?thesis
    proof (cases "ret < 0")
      case True
      with Suc.prems(1) na rd have "w' = w2"
        by (auto simp: poll_abort_def split: if_splits)
      with r2 show ?thesis by simp
    next
      case nonneg: False
      show ?thesis
      proof (cases "stream_index pkt = v")
        case True
        obtain r3 w3 where sp: "avcodec_send_packet pkt w2 = (r3, w3)" by (metis prod.exhaust)
        from avcodec_send_packet_eff[OF sp] r2 have r3: "processed_frames w3 \<le> INT64_MAX"
          by auto
        show ?thesis
        proof (cases "r3 < 0")
          case neg: True
          with Suc.prems(1) na rd nonneg True sp have "w' = w3"
            by (auto simp: poll_abort_def)
          with r3 show ?thesis by simp
        next
          case ok: False
          with Suc.prems(1) na rd nonneg True sp obtain fl4 w4 where
            rl: "receive_loop n v bm w3 = Some (fl4, w4)"
            by (auto simp: poll_abort_def split: option.splits)
          note r4 = receive_loop_in_range[OF rl r3]
          show ?thesis
          proof (cases fl4)
            case (Stop r)
            with Suc.prems(1) na rd nonneg True sp ok rl have "w' = w4"
              by (auto simp: poll_abort_def)
            with r4 show ?thesis by simp
          next
            case Proceed
            with Suc.prems(1) na rd nonneg True sp ok rl have
              "read_loop n cfg v bm w4 = Some (fl, w')"
              by (auto simp: poll_abort_def)
            from Suc.IH[OF this r4] show ?thesis .
          qed
        qed
      next
        case other: False
        show ?thesis
        proof (cases "passthrough cfg pkt w2")
          case None
          with Suc.prems(1) na rd nonneg other have "read_loop n cfg v bm w2 = Some (fl, w')"
            by (auto simp: poll_abort_def)
          from Suc.IH[OF this r2] show ?thesis .
        next
          case (Some res)
          obtain fl3 w3 where res: "res = (fl3, w3)" by (cases res)
          from passthrough_in_range[OF Some[unfolded res]] r2 have
            r3: "processed_frames w3 \<le> INT64_MAX" by simp
          show ?thesis
          proof (cases fl3)
            case (Stop r)
            with Suc.prems(1) na rd nonneg other Some res have "w' = w3"
              by (auto simp: poll_abort_def)
            with r3 show ?thesis by simp
          next
            case Proceed
            with Suc.prems(1) na rd nonneg other Some res have
              "read_loop n cfg v bm w3 = Some (fl, w')"
              by (auto simp: poll_abort_def)
            from Suc.IH[OF this r3] show ?thesis .
          qed
        qed
      qed
    qed
  qed
qed

lemma write_flushed_in_range:
  "write_flushed v fs w = (fl, w') \<Longrightarrow> processed_frames w \<le> INT64_MAX \<Longrightarrow>
     processed_frames w' \<le> INT64_MAX"
proof (induction fs arbitrary: w)
  case Nil
  then show ?case by simp
next
  case (Cons f fs)
  obtain rc w1 where wf: "submit_frame f v w = (rc, w1)" by (metis prod.exhaust)
  from submit_frame_counts(2)[OF wf] Cons.prems(2) have r1: "processed_frames w1 \<le> INT64_MAX"
    by simp
  obtain fl2 w2 where cf: "count_frame w1 = (fl2, w2)" by (metis prod.exhaust)
  note r2 = count_frame_in_range[OF cf r1]
  show ?case
  proof (cases "rc = Fault \<or> (\<exists>r<0. rc = Ret r) \<or> fl2 \<noteq> Proceed")
    case True
    with Cons.prems(1) wf cf have "w' = w1 \<or> w' = w2"
      by (cases rc; cases fl2) (auto split: if_splits)
    with r1 r2 show ?thesis by auto
  next
    case False
    with Cons.prems(1) wf cf have "write_flushed v fs w2 = (fl, w')"
      by (cases rc; cases fl2) (auto split: if_splits)
    from Cons.IH[OF this r2] show ?thesis .
  qed
qed

lemma flush_sequence_in_range:
  assumes "flush_sequence v w = (rc, w')" and "processed_frames w \<le> INT64_MAX"
  shows "processed_frames w' \<le> INT64_MAX"
proof -
  obtain ret fs wa where ff: "filter_flush w = ((ret, fs), wa)" by (metis prod.exhaust)
  from filter_flush_eff[OF ff] assms(2) have ra: "processed_frames wa \<le> INT64_MAX" by auto
  obtain fl wb where wfl: "write_flushed v fs wa = (fl, wb)" by (metis prod.exhaust)
  note rb = write_flushed_in_range[OF wfl ra]
  obtain rc2 wc where fe: "flush_encoder wb = (rc2, wc)" by (metis prod.exhaust)
  from flush_encoder_counts(2)[OF fe] rb have rc: "processed_frames wc \<le> INT64_MAX" by simp
  from assms(1) ff wfl fe have "w' = wa \<or> w' = wb \<or> w' = wc"
    by (auto simp: flush_sequence_def split: if_splits flow.splits)
  with ra rb rc show ?thesis by auto
qed

lemma process_frames_in_range:
  assumes "process_frames n pr cfg v bm w = Some (rc, w')" and "processed_frames w \<le> INT64_MAX"
  shows "processed_frames w' \<le> INT64_MAX"
proof -
  let ?w0 = "w\<lparr>total_frames := cap_frame_count pr, start_time := time_now pr\<rparr>"
  obtain ok1 w1 where a1: "av_alloc ?w0 = (ok1, w1)" by (metis prod.exhaust)
  from av_alloc_eff[OF a1] assms(2) have r1: "processed_frames w1 \<le> INT64_MAX" by auto
  obtain ok2 w2 where a2: "av_alloc w1 = (ok2, w2)" by (metis prod.exhaust)
  from av_alloc_eff[OF a2] r1 have r2: "processed_frames w2 \<le> INT64_MAX" by auto
  show ?thesis
  proof (cases "cap_opened pr \<and> ok1 \<and> ok2")
    case False
    with assms(1) a1 a2 have "w' = w \<or> w' = w1 \<or> w' = w2"
      by (cases ok1; cases ok2) (auto simp: process_frames_def split: if_splits)
    with assms(2) r1 r2 show ?thesis by auto
  next
    case True
    with assms(1) a1 a2 have rf: "read_and_flush n cfg v bm w2 = Some (rc, w')"
      by (simp add: process_frames_def)
    then obtain fl w3 where rl: "read_loop n cfg v bm w2 = Some (fl, w3)"
      by (auto simp: read_and_flush_def split: option.splits)
    note r3 = read_loop_in_range[OF rl r2]
    show ?thesis
    proof (cases fl)
      case (Stop r)
      with rf rl have "w' = w3" by (simp add: read_and_flush_def)
      with r3 show ?thesis by simp
    next
      case Proceed
      with rf rl have "flush_sequence v w3 = (rc, w')" by (simp add: read_and_flush_def)
      from flush_sequence_in_range[OF this r3] show ?thesis .
    qed
  qed
qed

text \<open>In benchmark mode the body of the inner loop calls the filter and nothing else.\<close>

lemma process_decoded_frame_benchmark:
  "\<exists>ret out. trace (snd (process_decoded_frame frame v True w)) =
     trace w @ [EvFilterProcess ret out]"
proof -
  obtain ret out w1 where fp: "filter_process_frame frame w = ((ret, out), w1)"
    by (metis prod.exhaust)
  from filter_process_frame_eff[OF fp] obtain s1 where
    w1: "w1 = w\<lparr>filter_script := s1, trace := trace w @ [EvFilterProcess ret out]\<rparr>" by blast
  obtain fl w2 where cf: "count_frame w1 = (fl, w2)" by (metis prod.exhaust)
  from count_frame_cases[OF cf] have "trace w2 = trace w1" by auto
  with fp cf w1 have "trace (snd (process_decoded_frame frame v True w)) =
      trace w @ [EvFilterProcess ret out]"
    by (auto simp: process_decoded_frame_def)
  then show ?thesis by blast
qed

text \<open>
  Claim C3, amended. After a complete run (one that returns a non-negative status),
  started with an empty call log and the counter at 0, \<^verbatim>\<open>processed_frames\<close> equals
  the number of frames the encoder accepted in normal mode, and it equals the number of
  frames the decoder produced when the filter has given back, in the loop or at its
  flush, as many frames as the decoder produced. It is incremented once per
  filter-output frame and once per frame handed out by the filter flush, and has not left
  the range of its type. In benchmark mode the submission of a filter-output frame is
  skipped while the frame is still counted: the body of the inner loop then calls the
  filter and nothing else.
\<close>

theorem processed_frames_counts:
  assumes run: "process_frames n pr cfg v bm w = Some (Ret r, w')"
    and complete: "0 \<le> r"
    and fresh: "trace w = []"
    and zero: "processed_frames w = 0"
  shows "(\<not> bm \<longrightarrow> processed_frames w' = int (encoded (trace w'))) \<and>
         (decoded (trace w') = filter_outputs (trace w') + flushed (trace w') \<longrightarrow>
            processed_frames w' = int (decoded (trace w'))) \<and>
         processed_frames w' = int (filter_outputs (trace w')) + int (flushed (trace w')) \<and>
         processed_frames w' \<le> INT64_MAX \<and>
         (\<exists>ret out. trace (snd (process_decoded_frame frame v True u)) =
            trace u @ [EvFilterProcess ret out])"
proof -
  from process_frames_in_range[OF run] zero have "processed_frames w' \<le> INT64_MAX"
    by (simp add: INT64_MAX_def)
  moreover
  from process_frames_keeps[OF run] complete have
    "frame_balance w' = frame_balance w" "encode_balance bm w' = encode_balance bm w"
    by simp_all
  with fresh zero have
    "(\<not> bm \<longrightarrow> processed_frames w' = int (encoded (trace w'))) \<and>
     (decoded (trace w') = filter_outputs (trace w') + flushed (trace w') \<longrightarrow>
        processed_frames w' = int (decoded (trace w'))) \<and>
     processed_frames w' = int (filter_outputs (trace w')) + int (flushed (trace w'))"
    by (auto simp: frame_balance_def encode_balance_def)
  ultimately show ?thesis using process_decoded_frame_benchmark[of frame v u] by blast
qed

text \<open>The run over ten video packets, each decoded to one frame without timestamp.\<close>

lemma ten_frame_run:
  "fst (the (process_frames 12 example_probe plain_config 0 False ten_frame_world)) = Ret 0"
  "process_frames 12 example_probe plain_config 0 False ten_frame_world \<noteq> None"
  "sent_pts (trace (snd (the (process_frames 12 example_probe plain_config 0 False ten_frame_world)))) =
     [0, 1, 2, 3, 4, 5, 6, 7, 8, 9]"
  "decoded (trace (snd (the (process_frames 12 example_probe plain_config 0 False ten_frame_world)))) = 10"
  "filter_outputs (trace (snd (the (process_frames 12 example_probe plain_config 0 False ten_frame_world)))) = 10"
  "flushed (trace (snd (the (process_frames 12 example_probe plain_config 0 False ten_frame_world)))) = 0"
  by (simp_all add: ten_frame_world_def run_defs example_defs eval_nat_numeral)

text \<open>The same input in benchmark mode.\<close>

lemma ten_frame_benchmark_run:
  "fst (the (process_frames 12 example_probe plain_config 0 True ten_frame_world)) = Ret 0"
  "process_frames 12 example_probe plain_config 0 True ten_frame_world \<noteq> None"
  "decoded (trace (snd (the (process_frames 12 example_probe plain_config 0 True ten_frame_world)))) = 10"
  "filter_outputs (trace (snd (the (process_frames 12 example_probe plain_config 0 True ten_frame_world)))) = 10"
  "flushed (trace (snd (the (process_frames 12 example_probe plain_config 0 True ten_frame_world)))) = 0"
  "encoded (trace (snd (the (process_frames 12 example_probe plain_config 0 True ten_frame_world)))) = 0"
  by (simp_all add: ten_frame_world_def run_defs example_defs eval_nat_numeral)

theorem processed_frames_counts_witness:
  "processed_frames (snd (the (process_frames 12 example_probe plain_config 0 False ten_frame_world))) = 10 \<and>
   encoded (trace (snd (the (process_frames 12 example_probe plain_config 0 False ten_frame_world)))) = 10 \<and>
   decoded (trace (snd (the (process_frames 12 example_probe plain_config 0 False ten_frame_world)))) = 10 \<and>
   processed_frames (snd (the (process_frames 12 example_probe plain_config 0 True ten_frame_world))) = 10 \<and>
   encoded (trace (snd (the (process_frames 12 example_probe plain_config 0 True ten_frame_world)))) = 0 \<and>
   decoded (trace (snd (the (process_frames 12 example_probe plain_config 0 True ten_frame_world)))) = 10"
proof -
  from ten_frame_run(1,2) obtain w' where
    run: "process_frames 12 example_probe plain_config 0 False ten_frame_world = Some (Ret 0, w')"
    by (cases "process_frames 12 example_probe plain_config 0 False ten_frame_world") auto
  from ten_frame_benchmark_run(1,2) obtain wb where
    runb: "process_frames 12 example_probe plain_config 0 True ten_frame_world = Some (Ret 0, wb)"
    by (cases "process_frames 12 example_probe plain_config 0 True ten_frame_world") auto
  have fresh: "trace ten_frame_world = []" and zero: "processed_frames ten_frame_world = 0"
    by (simp_all add: ten_frame_world_def idle_world_def)
  from processed_frames_counts[OF run _ fresh zero, where frame = frame_without_pts and u = idle_world]
    ten_frame_run(4,5,6)
  have normal: "processed_frames w' = 10 \<and> encoded (trace w') = 10 \<and> decoded (trace w') = 10"
    by (simp add: run)
  from processed_frames_counts[OF runb _ fresh zero, where frame = frame_without_pts and u = idle_world]
    ten_frame_benchmark_run(3,4,5,6)
  have "processed_frames wb = 10 \<and> encoded (trace wb) = 0 \<and> decoded (trace wb) = 10"
    by (simp add: runb)
  with normal show ?thesis by (simp add: run runb)
qed

text \<open>
  Claim C3 as stated fails in benchmark mode when the filter keeps a frame: the decoder
  produced one frame and \<^verbatim>\<open>processed_frames\<close> is still 0 after a complete run.
\<close>

theorem lossy_filter_benchmark_counterexample:
  "fst (the (process_frames 3 example_probe plain_config 0 True lossy_filter_world)) = Ret 0 \<and>
   decoded (trace (snd (the (process_frames 3 example_probe plain_config 0 True lossy_filter_world)))) = 1 \<and>
   processed_frames (snd (the (process_frames 3 example_probe plain_config 0 True lossy_filter_world))) = 0"
  by (simp add: lossy_filter_world_def run_defs example_defs eval_nat_numeral)

section \<open>Fallback timestamps\<close>






section \<open>The status of the public entry point\<close>

text \<open>
  Claim C10, amended. Once the set-up has succeeded, \<^verbatim>\<open>process_video\<close> returns a
  negative status of \<^verbatim>\<open>process_frames\<close> unchanged, the end-of-file status included,
  without writing the trailer; it returns 0, after the trailer, exactly when that status
  is not negative. The exemption of the end-of-file status in the last check is never
  reached with a negative status.
\<close>

theorem process_video_returns_negative_status:
  assumes "video_setup env hw fc cfg w = (None, w1)"
    and "process_frames n (frame_probe env) cfg (decoder_vstream_idx env) bm w1 = Some (Ret r, w2)"
  shows "process_video n env bm hw fc cfg w =
           Some (if r < 0 then (Ret r, w2) else (Ret 0, w2\<lparr>trace := trace w2 @ [EvWriteTrailer]\<rparr>))"
  using assms by (simp add: process_video_def Let_def)

lemma example_setup:
  "video_setup example_video_env True example_filter_config plain_config decoder_eof_world =
     (None, decoder_eof_world\<lparr>trace := [EvWriteHeader 0]\<rparr>)"
  by (simp add: video_setup_def example_video_env_def example_filter_config_def
      decoder_eof_world_def init_def init_video_stream_def example_init_env_def Encoder_new_def
      Let_def example_defs)

lemma example_eof_run:
  "process_frames 2 example_probe plain_config 0 False (decoder_eof_world\<lparr>trace := [EvWriteHeader 0]\<rparr>) =
     Some (Ret AVERROR_EOF,
           decoder_eof_world\<lparr>total_frames := 10, start_time := 1700000000, abort_reads := 1,
              read_script := [], send_packet_script := [],
              trace := [EvWriteHeader 0, EvReadFrame 0, EvSendPacket AVERROR_EOF]\<rparr>)"
  by (simp add: decoder_eof_world_def run_defs example_defs eval_nat_numeral)

lemma example_video_env_fields:
  "frame_probe example_video_env = example_probe"
  "decoder_vstream_idx example_video_env = 0"
  by (simp_all add: example_video_env_def)

theorem process_video_returns_negative_status_witness:
  "fst (the (process_video 2 example_video_env False True example_filter_config plain_config
        decoder_eof_world)) = Ret AVERROR_EOF"
proof -
  have p: "process_frames 2 (frame_probe example_video_env) plain_config
      (decoder_vstream_idx example_video_env) False (decoder_eof_world\<lparr>trace := [EvWriteHeader 0]\<rparr>) =
     Some (Ret AVERROR_EOF,
           decoder_eof_world\<lparr>total_frames := 10, start_time := 1700000000, abort_reads := 1,
              read_script := [], send_packet_script := [],
              trace := [EvWriteHeader 0, EvReadFrame 0, EvSendPacket AVERROR_EOF]\<rparr>)"
    using example_eof_run by (simp only: example_video_env_fields)
  from process_video_returns_negative_status[OF example_setup p] averror_negative(1)
  show ?thesis by simp
qed

text \<open>
  Claim C10 as stated fails: when \<^verbatim>\<open>process_frames\<close> ends with the end-of-file
  status (here the decoder rejects the packet with it), \<^verbatim>\<open>process_video\<close> does not
  return 0.
\<close>

theorem eof_not_success_counterexample:
  "map_option fst (process_frames 2 example_probe plain_config 0 False
      (snd (video_setup example_video_env True example_filter_config plain_config decoder_eof_world))) =
     Some (Ret AVERROR_EOF) \<and>
   map_option fst (process_video 2 example_video_env False True example_filter_config plain_config
      decoder_eof_world) \<noteq> Some (Ret 0)"
  by (simp add: process_video_def example_setup example_eof_run example_video_env_fields
      AVERROR_EOF_def)


section \<open>Statuses of the encode stage\<close>

lemma drain_packets_status:
  "drain_packets w = (rc, w') \<Longrightarrow>
     \<exists>evs. trace w' = trace w @ evs \<and> evs \<noteq> [] \<and> (\<forall>e\<in>set (butlast evs). \<not> failed e) \<and>
           (if failed (last evs) then rc = Ret (status_of (last evs))
            else rc = Ret 0 \<or> rc = Fault)"
proof (induction w arbitrary: rc w' rule: drain_packets.induct)
  case (1 w)
  obtain ret enc_pkt w1 where rcv: "avcodec_receive_packet w = ((ret, enc_pkt), w1)"
    by (metis prod.exhaust)
  from avcodec_receive_packet_eff[OF rcv] obtain s1 where
    w1: "w1 = w\<lparr>receive_packet_script := s1, trace := trace w @ [EvReceivePacket ret]\<rparr>" by blast
  show ?case
  proof (cases "ret = AVERROR_EAGAIN \<or> ret = AVERROR_EOF")
    case True
    with "1.prems" rcv have "w' = w1" "rc = Ret 0"
      by (subst (asm) drain_packets.simps; simp)+
    with w1 True show ?thesis by (intro exI[of _ "[EvReceivePacket ret]"]) auto
  next
    case idle: False
    show ?thesis
    proof (cases "ret < 0")
      case True
      with "1.prems" rcv idle have "w' = w1" "rc = Ret ret"
        by (subst (asm) drain_packets.simps; simp)+
      with w1 True idle show ?thesis by (intro exI[of _ "[EvReceivePacket ret]"]) auto
    next
      case got: False
      show ?thesis
      proof (cases "nth_opt (ofmt_streams (encoder w1)) (out_vstream_idx (encoder w1))")
        case None
        with "1.prems" rcv idle got have "w' = w1" "rc = Fault"
          by (subst (asm) drain_packets.simps; simp)+
        with w1 got show ?thesis by (intro exI[of _ "[EvReceivePacket ret]"]) auto
      next
        case (Some out_vstream)
        let ?pkt = "(rescale_ts w1 enc_pkt (ctx_time_base (enc_ctx (encoder w1)))
                       (time_base out_vstream))\<lparr>stream_index := out_vstream_idx (encoder w1)\<rparr>"
        obtain ret2 w2 where mux: "av_interleaved_write_frame ?pkt w1 = (ret2, w2)"
          by (metis prod.exhaust)
        from av_interleaved_write_frame_eff[OF mux] obtain s2 where
          w2: "w2 = w1\<lparr>mux_script := s2, trace := trace w1 @ [EvMuxWrite ?pkt ret2]\<rparr>" by blast
        show ?thesis
        proof (cases "ret2 < 0")
          case True
          with "1.prems" rcv idle got Some mux have "w' = w2" "rc = Ret ret2"
            by (subst (asm) drain_packets.simps; simp)+
          with w1 w2 True got show ?thesis
            by (intro exI[of _ "[EvReceivePacket ret, EvMuxWrite ?pkt ret2]"]) auto
        next
          case wrote: False
          with "1.prems" rcv idle got Some mux have rec: "drain_packets w2 = (rc, w')"
            by (subst (asm) drain_packets.simps) simp
          from "1.IH"[OF rcv[symmetric] refl idle got Some mux[symmetric] wrote rec]
          obtain evs where ih: "trace w' = trace w2 @ evs" "evs \<noteq> []"
            "\<forall>e\<in>set (butlast evs). \<not> failed e"
            "if failed (last evs) then rc = Ret (status_of (last evs)) else rc = Ret 0 \<or> rc = Fault"
            by blast
          let ?evs = "EvReceivePacket ret # EvMuxWrite ?pkt ret2 # evs"
          have "trace w' = trace w @ ?evs" using ih(1) w1 w2 by simp
          moreover have "\<forall>e\<in>set (butlast ?evs). \<not> failed e"
            using ih(2,3) got wrote by simp
          moreover have "last ?evs = last evs" using ih(2) by simp
          ultimately show ?thesis using ih(4) by (intro exI[of _ ?evs]) simp
        qed
      qed
    qed
  qed
qed

lemma send_and_drain_status:
  assumes "send_and_drain f w = (rc, w')"
  shows "\<exists>evs. trace w' = trace w @ evs \<and> (\<forall>e\<in>set (butlast evs). \<not> failed e) \<and>
           (evs \<noteq> [] \<longrightarrow>
              (if failed (last evs) then rc = Ret (status_of (last evs))
               else rc = Ret 0 \<or> rc = Fault))"
proof -
  obtain ok w1 where al: "av_alloc w = (ok, w1)" by (metis prod.exhaust)
  from av_alloc_eff[OF al] obtain s1 where w1: "w1 = w\<lparr>alloc_script := s1\<rparr>" by blast
  show ?thesis
  proof (cases ok)
    case False
    with assms al have "w' = w1" by (auto simp: send_and_drain_def)
    with w1 show ?thesis by (intro exI[of _ "[]"]) simp
  next
    case True
    obtain ret w2 where snd: "avcodec_send_frame (Some f) w1 = (ret, w2)" by (metis prod.exhaust)
    from avcodec_send_frame_eff[OF snd] obtain s2 where
      w2: "w2 = w1\<lparr>send_frame_script := s2, trace := trace w1 @ [EvSendFrame (Some f) ret]\<rparr>"
      by blast
    show ?thesis
    proof (cases "ret < 0")
      case neg: True
      with assms al True snd have "w' = w2" "rc = Ret ret" by (auto simp: send_and_drain_def)
      with w1 w2 neg show ?thesis by (intro exI[of _ "[EvSendFrame (Some f) ret]"]) simp
    next
      case nonneg: False
      with assms al True snd have "drain_packets w2 = (rc, w')" by (auto simp: send_and_drain_def)
      from drain_packets_status[OF this] obtain evs where d: "trace w' = trace w2 @ evs" "evs \<noteq> []"
        "\<forall>e\<in>set (butlast evs). \<not> failed e"
        "if failed (last evs) then rc = Ret (status_of (last evs)) else rc = Ret 0 \<or> rc = Fault"
        by blast
      let ?evs = "EvSendFrame (Some f) ret # evs"
      have "trace w' = trace w @ ?evs" using d(1) w1 w2 by simp
      moreover have "\<forall>e\<in>set (butlast ?evs). \<not> failed e" using d(2,3) nonneg by simp
      moreover have "last ?evs = last evs" using d(2) by simp
      ultimately show ?thesis using d(4) by (intro exI[of _ ?evs]) simp
    qed
  qed
qed

text \<open>
  Claim C7. Among the calls \<open>write_frame\<close> makes, only the last can have failed (a
  negative status of the encoder send, of the encoder receive other than "try again" and
  "end of stream", or of the mux write): nothing is called after a failure, so nothing is
  retried. When the last call has failed, its status is the value \<open>write_frame\<close>
  returns; otherwise \<open>write_frame\<close> returns 0 (or meets an output stream index outside
  the output context).
\<close>

theorem write_frame_propagates_status:
  assumes "write_frame frame frame_idx w = (rc, w')"
  shows "\<exists>evs. trace w' = trace w @ evs \<and> (\<forall>e\<in>set (butlast evs). \<not> failed e) \<and>
           (evs \<noteq> [] \<longrightarrow>
              (if failed (last evs) then rc = Ret (status_of (last evs))
               else rc = Ret 0 \<or> rc = Fault))"
proof (cases "format (set_fallback_pts frame frame_idx) \<noteq> ctx_pix_fmt (enc_ctx (encoder w))")
  case False
  with assms have "send_and_drain (set_fallback_pts frame frame_idx) w = (rc, w')"
    by (simp add: write_frame_def Let_def)
  from send_and_drain_status[OF this] show ?thesis .
next
  case True
  obtain out w1 where cv: "convert_avframe_pix_fmt (set_fallback_pts frame frame_idx)
      (ctx_pix_fmt (enc_ctx (encoder w))) w = (out, w1)" by (metis prod.exhaust)
  from convert_eff[OF cv] obtain s1 where w1: "w1 = w\<lparr>convert_script := s1\<rparr>" by blast
  show ?thesis
  proof (cases out)
    case None
    with assms True cv have "w' = w1" by (auto simp: write_frame_def Let_def)
    with w1 show ?thesis by (intro exI[of _ "[]"]) simp
  next
    case (Some c)
    with assms True cv have
      "send_and_drain (c\<lparr>pts := pts (set_fallback_pts frame frame_idx)\<rparr>) w1 = (rc, w')"
      by (auto simp: write_frame_def Let_def)
    from send_and_drain_status[OF this] w1 show ?thesis by simp
  qed
qed

lemma mux_error_run:
  "write_frame frame_without_pts 0 mux_error_world =
     (Ret (- 5),
      mux_error_world
        \<lparr>send_frame_script := [], receive_packet_script := [], mux_script := [],
         trace := [EvSendFrame (Some frame_without_pts) 0, EvReceivePacket 0,
                   EvMuxWrite encoded_packet (- 5)]\<rparr>)"
  by (simp add: mux_error_world_def run_defs example_defs encoded_packet_def)

theorem write_frame_propagates_status_witness:
  "fst (write_frame frame_without_pts 0 mux_error_world) = Ret (- 5) \<and>
   failed (last (trace (snd (write_frame frame_without_pts 0 mux_error_world))))"
proof -
  from write_frame_propagates_status[OF mux_error_run] obtain evs where
    e: "trace (mux_error_world
        \<lparr>send_frame_script := [], receive_packet_script := [], mux_script := [],
         trace := [EvSendFrame (Some frame_without_pts) 0, EvReceivePacket 0,
                   EvMuxWrite encoded_packet (- 5)]\<rparr>) = trace mux_error_world @ evs"
    "\<forall>e\<in>set (butlast evs). \<not> failed e"
    "evs \<noteq> [] \<longrightarrow> (if failed (last evs) then Ret (- 5) = Ret (status_of (last evs))
               else Ret (- 5) = Ret 0 \<or> Ret (- 5) = Fault)"
    by blast
  from e(1) have "evs = [EvSendFrame (Some frame_without_pts) 0, EvReceivePacket 0,
                   EvMuxWrite encoded_packet (- 5)]"
    by (simp add: mux_error_world_def idle_world_def)
  with e(3) show ?thesis by (simp add: mux_error_run)
qed

section \<open>Flushing twice\<close>

lemma filter_flushed_append [simp]:
  "filter_flushed (xs @ ys) \<longleftrightarrow> filter_flushed xs \<or> filter_flushed ys"
proof (induction xs)
  case Nil
  then show ?case by simp
next
  case (Cons e xs)
  then show ?case by (cases e) auto
qed

lemma drain_step_Finished [simp]: "drain_step Finished e = Finished"
  by (cases e) simp_all

lemma drain_step_leaves_Open: "s \<noteq> Open \<Longrightarrow> drain_step s e \<noteq> Open"
  by (cases s; cases e) (auto split: if_splits)

lemma drain_steps_leave_Open: "s \<noteq> Open \<Longrightarrow> foldl drain_step s evs \<noteq> Open"
  by (induction evs arbitrary: s) (simp_all add: drain_step_leaves_Open)

lemma drain_step_null_frame: "0 \<le> r \<Longrightarrow> drain_step s (EvSendFrame None r) \<noteq> Open"
  by (cases s) simp_all

lemma drain_step_last:
  "s \<noteq> Open \<Longrightarrow> x = AVERROR_EAGAIN \<or> x = AVERROR_EOF \<Longrightarrow>
     drain_step s (EvReceivePacket x) = Finished"
  by (cases s) auto

text \<open>
  A drain that returns a non-negative status has ended on a receive that answered
  "try again" or "end of stream".
\<close>

lemma drain_packets_ends:
  "drain_packets w = (Ret r, w') \<Longrightarrow> 0 \<le> r \<Longrightarrow>
     \<exists>evs x. trace w' = trace w @ evs @ [EvReceivePacket x] \<and>
             (x = AVERROR_EAGAIN \<or> x = AVERROR_EOF)"
proof (induction w arbitrary: w' rule: drain_packets.induct)
  case (1 w)
  obtain ret enc_pkt w1 where rcv: "avcodec_receive_packet w = ((ret, enc_pkt), w1)"
    by (metis prod.exhaust)
  from avcodec_receive_packet_eff[OF rcv] obtain s1 where
    w1: "w1 = w\<lparr>receive_packet_script := s1, trace := trace w @ [EvReceivePacket ret]\<rparr>" by blast
  show ?case
  proof (cases "ret = AVERROR_EAGAIN \<or> ret = AVERROR_EOF")
    case True
    with "1.prems"(1) rcv have "w' = w1"
      by (subst (asm) drain_packets.simps) (auto split: if_splits)
    with w1 True have "trace w' = trace w @ [] @ [EvReceivePacket ret]" by simp
    with True show ?thesis by blast
  next
    case a: False
    show ?thesis
    proof (cases "ret < 0")
      case True
      with "1.prems"(1) rcv a have "Ret r = Ret ret"
        by (subst (asm) drain_packets.simps) (auto split: if_splits)
      with True "1.prems"(2) show ?thesis by simp
    next
      case nonneg: False
      show ?thesis
      proof (cases "nth_opt (ofmt_streams (encoder w1)) (out_vstream_idx (encoder w1))")
        case None
        with "1.prems"(1) rcv a nonneg have "Ret r = Fault"
          by (subst (asm) drain_packets.simps) (auto split: if_splits)
        then show ?thesis by simp
      next
        case (Some out_vstream)
        obtain ret2 w2 where mux: "av_interleaved_write_frame
                         ((rescale_ts w1 enc_pkt (ctx_time_base (enc_ctx (encoder w1)))
                             (time_base out_vstream))
                            \<lparr>stream_index := out_vstream_idx (encoder w1)\<rparr>) w1 = (ret2, w2)"
          by (metis prod.exhaust)
        from av_interleaved_write_frame_eff[OF mux] obtain s2 pkt where
          w2: "w2 = w1\<lparr>mux_script := s2, trace := trace w1 @ [EvMuxWrite pkt ret2]\<rparr>"
          by blast
        show ?thesis
        proof (cases "ret2 < 0")
          case True
          with "1.prems"(1) rcv a nonneg Some mux have "Ret r = Ret ret2"
            by (subst (asm) drain_packets.simps) (auto split: if_splits)
          with True "1.prems"(2) show ?thesis by simp
        next
          case False
          with "1.prems"(1) rcv a nonneg Some mux have rec: "drain_packets w2 = (Ret r, w')"
            by (subst (asm) drain_packets.simps) (auto split: if_splits)
          have nn: "\<not> ret < 0" using nonneg .
          from "1.IH"[OF rcv[symmetric] refl a nn Some mux[symmetric] False rec "1.prems"(2)]
          obtain evs x where
            e: "trace w' = trace w2 @ evs @ [EvReceivePacket x]"
               "x = AVERROR_EAGAIN \<or> x = AVERROR_EOF" by blast
          from e(1) w1 w2 have
            "trace w' = trace w @ (EvReceivePacket ret # EvMuxWrite pkt ret2 # evs) @ [EvReceivePacket x]"
            by simp
          with e(2) show ?thesis by blast
        qed
      qed
    qed
  qed
qed

lemma write_flushed_trace:
  "write_flushed v fs w = (fl, w') \<Longrightarrow> \<exists>evs. trace w' = trace w @ evs"
proof (induction fs arbitrary: w)
  case Nil
  then show ?case by simp
next
  case (Cons f fs)
  obtain rc w1 where wf: "submit_frame f v w = (rc, w1)" by (metis prod.exhaust)
  from write_frame_eff[OF wf[unfolded submit_frame_def]] obtain evs1 where
    t1: "trace w1 = trace w @ evs1" by blast
  obtain fl2 w2 where cf: "count_frame w1 = (fl2, w2)" by (metis prod.exhaust)
  from count_frame_cases[OF cf] have t2: "trace w2 = trace w1" by auto
  show ?case
  proof (cases "rc = Fault \<or> (\<exists>r<0. rc = Ret r) \<or> fl2 \<noteq> Proceed")
    case True
    with Cons.prems wf cf have "w' = w1 \<or> w' = w2"
      by (cases rc; cases fl2) (auto split: if_splits)
    with t1 t2 show ?thesis by auto
  next
    case False
    with Cons.prems wf cf have "write_flushed v fs w2 = (fl, w')"
      by (cases rc; cases fl2) (auto split: if_splits)
    from Cons.IH[OF this] t1 t2 show ?thesis by auto
  qed
qed

text \<open>
  A complete flush sequence has flushed the filter and has drained the encoder to the
  end.
\<close>

lemma flush_sequence_flushes:
  assumes first: "flush_sequence v w = (Ret r, w1)" and complete: "0 \<le> r"
  shows "filter_flushed (trace w1)" "encoder_finished (trace w1)"
proof -
  obtain ret fs wa where ff: "filter_flush w = ((ret, fs), wa)" by (metis prod.exhaust)
  from filter_flush_eff[OF ff] obtain sa where
    wa: "wa = w\<lparr>flush_script := sa, trace := trace w @ [EvFilterFlush ret fs]\<rparr>" by blast
  have ret: "0 \<le> ret"
  proof (rule ccontr)
    assume "\<not> 0 \<le> ret"
    with first ff have "Ret r = Ret ret" by (simp add: flush_sequence_def)
    with \<open>\<not> 0 \<le> ret\<close> complete show False by simp
  qed
  obtain fl wb where wfl: "write_flushed v fs wa = (fl, wb)" by (metis prod.exhaust)
  from write_flushed_keeps[OF wfl] have neg: "\<forall>x. fl = Stop (Ret x) \<longrightarrow> x < 0" by blast
  have fl: "fl = Proceed"
  proof (cases fl)
    case Proceed
    then show ?thesis .
  next
    case (Stop x)
    with first ff ret wfl have "Ret r = x" by (simp add: flush_sequence_def)
    with neg Stop complete show ?thesis by auto
  qed
  with first ff ret wfl have fe: "flush_encoder wb = (Ret r, w1)" by (simp add: flush_sequence_def)
  from write_flushed_trace[OF wfl] obtain evsb where tb: "trace wb = trace wa @ evsb" by blast
  from flush_encoder_eff[OF fe] obtain evs1 where t1: "trace w1 = trace wb @ evs1" by blast
  from wa tb t1 ret show "filter_flushed (trace w1)" by simp
  obtain ok wc where al: "av_alloc wb = (ok, wc)" by (metis prod.exhaust)
  from av_alloc_eff[OF al] obtain sc where wc: "wc = wb\<lparr>alloc_script := sc\<rparr>" by blast
  have ok: ok
  proof (rule ccontr)
    assume "\<not> ok"
    with fe al have "Ret r = Ret AVERROR_ENOMEM" by (simp add: flush_encoder_def)
    with complete averror_negative(3) show False by simp
  qed
  obtain r4 wd where sf: "avcodec_send_frame None wc = (r4, wd)" by (metis prod.exhaust)
  from avcodec_send_frame_eff[OF sf] obtain sd where
    wd: "wd = wc\<lparr>send_frame_script := sd, trace := trace wc @ [EvSendFrame None r4]\<rparr>" by blast
  have r4: "0 \<le> r4"
  proof (rule ccontr)
    assume "\<not> 0 \<le> r4"
    with fe al ok sf have "Ret r = Ret r4" by (simp add: flush_encoder_def)
    with \<open>\<not> 0 \<le> r4\<close> complete show False by simp
  qed
  with fe al ok sf have "drain_packets wd = (Ret r, w1)" by (simp add: flush_encoder_def)
  from drain_packets_ends[OF this complete] obtain evs x where
    e: "trace w1 = trace wd @ evs @ [EvReceivePacket x]"
       "x = AVERROR_EAGAIN \<or> x = AVERROR_EOF" by blast
  let ?s = "foldl drain_step Open (trace wb)"
  have "foldl drain_step Open (trace w1) =
          drain_step (foldl drain_step (drain_step ?s (EvSendFrame None r4)) evs) (EvReceivePacket x)"
    using e(1) wc wd by simp
  also have "\<dots> = Finished"
    using drain_step_last[OF drain_steps_leave_Open[OF drain_step_null_frame[OF r4]] e(2)] .
  finally show "encoder_finished (trace w1)" by (simp add: encoder_finished_def)
qed

text \<open>
  When the filter has nothing buffered and the encoder has no packet left, a flush
  sequence hands no packet to the muxer.
\<close>

lemma drained_flush_writes_nothing:
  assumes filter: "filter_drained w1"
    and enc: "encoder_drained w1"
  shows "muxed (trace (snd (flush_sequence v w1))) = muxed (trace w1)"
proof -
  obtain ret fs w2 where ff: "filter_flush w1 = ((ret, fs), w2)" by (metis prod.exhaust)
  from filter_flush_eff[OF ff] obtain s2 where
    w2: "w2 = w1\<lparr>flush_script := s2, trace := trace w1 @ [EvFilterFlush ret fs]\<rparr>" by blast
  have fs: "fs = []"
    using ff filter by (auto simp: filter_flush_def filter_drained_def split: list.splits)
  show ?thesis
  proof (cases "ret < 0")
    case True
    with ff have "flush_sequence v w1 = (Ret ret, w2)" by (simp add: flush_sequence_def)
    with w2 show ?thesis by simp
  next
    case False
    with ff fs have fe: "flush_sequence v w1 = flush_encoder w2" by (simp add: flush_sequence_def)
    obtain ok w3 where al: "av_alloc w2 = (ok, w3)" by (metis prod.exhaust)
    from av_alloc_eff[OF al] obtain s3 where w3: "w3 = w2\<lparr>alloc_script := s3\<rparr>" by blast
    show ?thesis
    proof (cases ok)
      case False
      with al have "flush_encoder w2 = (Ret AVERROR_ENOMEM, w3)" by (simp add: flush_encoder_def)
      with fe w2 w3 show ?thesis by simp
    next
      case True
      obtain r4 w4 where sf: "avcodec_send_frame None w3 = (r4, w4)" by (metis prod.exhaust)
      from avcodec_send_frame_eff[OF sf] obtain s4 where
        w4: "w4 = w3\<lparr>send_frame_script := s4, trace := trace w3 @ [EvSendFrame None r4]\<rparr>" by blast
      show ?thesis
      proof (cases "r4 < 0")
        case neg: True
        with al True sf have "flush_encoder w2 = (Ret r4, w4)" by (simp add: flush_encoder_def)
        with fe w2 w3 w4 show ?thesis by simp
      next
        case sent: False
        with al True sf have fd: "flush_encoder w2 = drain_packets w4" by (simp add: flush_encoder_def)
        obtain r5 p5 w5 where rp: "avcodec_receive_packet w4 = ((r5, p5), w5)" by (metis prod.exhaust)
        from avcodec_receive_packet_eff[OF rp] obtain s5 where
          w5: "w5 = w4\<lparr>receive_packet_script := s5, trace := trace w4 @ [EvReceivePacket r5]\<rparr>" by blast
        have "receive_packet_script w4 = receive_packet_script w1" using w2 w3 w4 by simp
        with rp enc averror_negative(2) have "r5 < 0"
          by (auto simp: avcodec_receive_packet_def encoder_drained_def split: list.splits)
        with rp have "snd (drain_packets w4) = w5"
          by (subst drain_packets.simps) simp
        with fe fd w2 w3 w4 w5 show ?thesis by simp
      qed
    qed
  qed
qed

text \<open>
  Claim C6. A first complete flush sequence (one that returns a non-negative status) has
  flushed the filter and has drained the encoder until a receive answered "try again" or
  "end of stream". When the filter and the encoder honour their flush contracts (a
  flushed filter holds no frame, an encoder drained to the end hands out no further
  packet), a second flush sequence then hands no packet to the muxer.
\<close>

theorem second_flush_writes_nothing:
  assumes first: "flush_sequence v w = (Ret r, w1)"
    and complete: "0 \<le> r"
    and contract: "honours_flush w1"
  shows "filter_flushed (trace w1) \<and> encoder_finished (trace w1) \<and>
         muxed (trace (snd (flush_sequence v w1))) = muxed (trace w1)"
proof -
  note fl = flush_sequence_flushes[OF first complete]
  with contract have "filter_drained w1" "encoder_drained w1"
    by (simp_all add: honours_flush_def)
  from drained_flush_writes_nothing[OF this] fl show ?thesis by simp
qed

lemma buffered_first_flush:
  "flush_sequence 0 buffered_world =
     (Ret 0,
      buffered_world
        \<lparr>flush_script := [], receive_packet_script := [], processed_frames := 2,
         trace := [EvFilterFlush 0 [frame_without_pts, frame_without_pts],
                   EvSendFrame (Some frame_without_pts) 0, EvReceivePacket 0,
                   EvMuxWrite encoded_packet 0, EvReceivePacket AVERROR_EAGAIN,
                   EvSendFrame (Some \<lparr>pts = 1, format = 0\<rparr>) 0, EvReceivePacket AVERROR_EAGAIN,
                   EvSendFrame None 0, EvReceivePacket AVERROR_EAGAIN]\<rparr>)"
  by (simp add: buffered_world_def run_defs example_defs encoded_packet_def)

theorem second_flush_writes_nothing_witness:
  "muxed (trace (snd (flush_sequence 0 buffered_world))) = [encoded_packet] \<and>
   muxed (trace (snd (flush_sequence 0 (snd (flush_sequence 0 buffered_world))))) =
     [encoded_packet]"
proof -
  let ?w1 = "buffered_world
        \<lparr>flush_script := [], receive_packet_script := [], processed_frames := 2,
         trace := [EvFilterFlush 0 [frame_without_pts, frame_without_pts],
                   EvSendFrame (Some frame_without_pts) 0, EvReceivePacket 0,
                   EvMuxWrite encoded_packet 0, EvReceivePacket AVERROR_EAGAIN,
                   EvSendFrame (Some \<lparr>pts = 1, format = 0\<rparr>) 0, EvReceivePacket AVERROR_EAGAIN,
                   EvSendFrame None 0, EvReceivePacket AVERROR_EAGAIN]\<rparr>"
  have c: "honours_flush ?w1"
    by (simp add: honours_flush_def filter_drained_def encoder_drained_def)
  from second_flush_writes_nothing[OF buffered_first_flush _ c] show ?thesis
    by (simp add: buffered_first_flush)
qed

end
